theory Spec2Isabelle
  imports Complex_Main "HOL-Library.Sublist"
begin

section \<open>Python values\<close>

text \<open>
  A Python \<open>str\<close> is a sequence of Unicode code points; \<open>len\<close> counts code points.
  Code points are natural numbers here, and \<open>py\<close> reads an ASCII literal.
\<close>

type_synonym pystr = "nat list"

definition py :: "string \<Rightarrow> pystr" where
  "py = map of_char"

text \<open>The exceptions that the modelled code raises or catches.\<close>

datatype exn =
    NetworkError | RateLimitError | ValueError | OverflowError
  | TypeError | AttributeError | KeyError | RequestException | JSONDecodeError | OSError
  | OtherException

text \<open>\<open>s.endswith(suf)\<close>.\<close>

definition endswith :: "pystr \<Rightarrow> pystr \<Rightarrow> bool" where
  "endswith s suf = (length suf \<le> length s \<and> drop (length s - length suf) s = suf)"

text \<open>
  \<open>try: body except Exception: \<dots>\<close> where the handler only logs and control goes on with
  \<open>dflt\<close>: every exception of \<open>exn\<close> is a subclass of \<open>Exception\<close>.
\<close>

definition catch_all :: "exn + 'a \<Rightarrow> 'a \<Rightarrow> exn + 'a" where
  "catch_all body dflt = (case body of Inl e \<Rightarrow> Inr dflt | Inr r \<Rightarrow> Inr r)"

section \<open>utils/network\_utils.py: safe\_request\<close>

text \<open>
  Python numbers, as CPython 3.11 has them. \<open>delay\<close> is annotated as a float, and the
  configuration passes what its JSON file holds, an int or a float. A float is a double:
  \<open>FloatNum r\<close> for a real \<open>r\<close> that a double represents (the two zeros are one value),
  an infinity, or NaN.
\<close>

datatype number = IntNum int | FloatNum real | PosInf | NegInf | NaN

fun is_float :: "number \<Rightarrow> bool" where
  "is_float (IntNum n) = False"
| "is_float x = True"

text \<open>
  The double that a float operation returns for the exact result \<open>x\<close>, when \<open>x\<close> is
  itself a double or lies beyond the doubles: every double is below \<open>2 ^ 1024\<close> in
  magnitude, and a result beyond them is an infinity.
\<close>

definition overflowing :: "real \<Rightarrow> number" where
  "overflowing x = (if \<bar>x\<bar> < 2 ^ 1024 then FloatNum x else if 0 < x then PosInf else NegInf)"

text \<open>
  The value of \<open>delay * (2 ** attempt)\<close> when the multiplication raises nothing. For an int
  it is the exact product. For a finite float the product of a double with a power of two
  is exact as long as it is a double, and an infinity beyond; an infinity and NaN stay as
  they are.
\<close>

fun scaled :: "number \<Rightarrow> nat \<Rightarrow> number" where
  "scaled (IntNum n) attempt = IntNum (n * 2 ^ attempt)"
| "scaled (FloatNum r) attempt = overflowing (r * 2 ^ attempt)"
| "scaled PosInf attempt = PosInf"
| "scaled NegInf attempt = NegInf"
| "scaled NaN attempt = NaN"

text \<open>
  \<open>delay * (2 ** attempt)\<close>: \<open>2 ** attempt\<close> is an int. With a float \<open>delay\<close> the
  multiplication converts the int to a double first, and from \<open>2 ** 1024\<close> on the
  conversion raises \<open>OverflowError\<close>; with an int \<open>delay\<close> nothing is converted.
\<close>

definition backoff :: "number \<Rightarrow> nat \<Rightarrow> exn + number" where
  "backoff delay attempt =
     (if is_float delay \<and> 1024 \<le> attempt then Inl OverflowError else Inr (scaled delay attempt))"

text \<open>\<open>n.bit_length()\<close> of a natural number.\<close>

fun bit_length :: "nat \<Rightarrow> nat" where
  "bit_length n = (if n = 0 then 0 else Suc (bit_length (n div 2)))"

text \<open>
  \<open>float\<close> of the decimal digits of an int \<open>n\<close>: the double nearest to \<open>n\<close>, a tie going
  to the even significand of 53 bits, and an infinity beyond the doubles.
\<close>

definition nearest_double :: "int \<Rightarrow> number" where
  "nearest_double n =
     (let m = nat \<bar>n\<bar>;
          shift = bit_length m - 53;
          q = m div 2 ^ shift;
          r = m mod 2 ^ shift;
          q' = (if 2 ^ shift < 2 * r \<or> (2 * r = 2 ^ shift \<and> odd q) then q + 1 else q)
      in overflowing (if 0 \<le> n then real (q' * 2 ^ shift) else - real (q' * 2 ^ shift)))"

text \<open>
  \<open>str(x)\<close> raises \<open>ValueError\<close> for an int of more than 4300 decimal digits (the default
  of \<open>sys.set_int_max_str_digits\<close>), and for nothing else.
\<close>

definition max_str_digits :: nat where
  "max_str_digits = 4300"

fun str_raises :: "number \<Rightarrow> bool" where
  "str_raises (IntNum n) = (10 ^ max_str_digits \<le> \<bar>n\<bar>)"
| "str_raises x = False"

text \<open>
  \<open>float(s)\<close> for the text \<open>s\<close> of a number: the text of a float reads back as the same
  float, the digits of an int as the nearest double.
\<close>

fun float_of_str :: "number \<Rightarrow> number" where
  "float_of_str (IntNum n) = nearest_double n"
| "float_of_str x = x"

text \<open>
  \<open>await asyncio.sleep(d)\<close>: \<open>None\<close> when the call never returns, an exception, or the
  return. \<open>sleep\<close> returns at once \<open>if delay <= 0\<close>; otherwise it sets a timer for
  \<open>loop.time() + delay\<close>, a float addition. The addition converts an int to the nearest
  double and raises \<open>OverflowError\<close> for an int that rounds to beyond the doubles, that is
  from \<open>2 ** 1024 - 2 ** 970\<close> on. A timer for \<open>+inf\<close> is never due. \<open>NaN <= 0\<close> is false
  and the event loop takes a timer for NaN as due (from CPython 3.13 on, \<open>sleep\<close> raises
  \<open>ValueError\<close> for NaN instead).
\<close>

definition int_overflows :: "int \<Rightarrow> bool" where
  "int_overflows n = (2 ^ 1024 - 2 ^ 970 \<le> \<bar>n\<bar>)"

fun asyncio_sleep :: "number \<Rightarrow> (exn + unit) option" where
  "asyncio_sleep (IntNum n) =
     (if n \<le> 0 then Some (Inr ())
      else if int_overflows n then Some (Inl OverflowError)
      else Some (Inr ()))"
| "asyncio_sleep (FloatNum r) = Some (Inr ())"
| "asyncio_sleep PosInf = None"
| "asyncio_sleep NegInf = Some (Inr ())"
| "asyncio_sleep NaN = Some (Inr ())"

text \<open>
  What one attempt of \<open>session.request\<close> produces: a response (status code, the
  \<open>Retry-After\<close> header, the body text), or an \<open>aiohttp.ClientError\<close>, or an
  \<open>asyncio.TimeoutError\<close> raised anywhere inside the \<open>try\<close> of that attempt.
  The header is absent, a text that \<open>float()\<close> accepts (with the number that it
  denotes), or a text that it rejects (an HTTP date, for instance).
\<close>

datatype header = Absent | Parsed number | Malformed

datatype outcome =
    Response int header pystr
  | ClientError
  | TimeoutError

text \<open>
  The observable effects of a call: the number of requests issued and the arguments of the
  calls of \<open>asyncio.sleep\<close>, in order.
\<close>

record trace =
  requests :: nat
  sleeps :: "number list"

text \<open>
  \<open>float(response.headers.get('Retry-After', str(delay * (2 ** attempt))))\<close>: the
  default is computed before the lookup, whether or not the header is there.
\<close>

definition wait_time :: "number \<Rightarrow> nat \<Rightarrow> header \<Rightarrow> exn + number" where
  "wait_time delay attempt h =
     (case backoff delay attempt of
        Inl e \<Rightarrow> Inl e
      | Inr d \<Rightarrow>
          if str_raises d then Inl ValueError
          else (case h of
                  Absent \<Rightarrow> Inr (float_of_str d)
                | Parsed x \<Rightarrow> Inr (float_of_str x)
                | Malformed \<Rightarrow> Inl ValueError))"

text \<open>The trace after a call of \<open>asyncio.sleep(d)\<close>.\<close>

definition sleep :: "number \<Rightarrow> trace \<Rightarrow> trace" where
  "sleep d t = t\<lparr>sleeps := sleeps t @ [d]\<rparr>"

text \<open>
  The body of \<open>for attempt in range(max_retries + 1)\<close>. The first argument after the
  parameters counts the iterations left, \<open>attempt\<close> is the loop variable. The result is
  \<open>None\<close> when the call never returns (it awaits a sleep that never ends), and otherwise
  the exception raised or the value returned. A status that no branch of the \<open>if\<close> chain
  takes (1xx, 2xx other than 200, 3xx) leaves the \<open>try\<close> with no \<open>return\<close> and no sleep,
  and the loop goes on; when the loop runs out the function returns \<open>None\<close>. An exception
  of \<open>asyncio.sleep\<close> or of the multiplication is not one that the handlers catch.
\<close>

fun attempts :: "(nat \<Rightarrow> outcome) \<Rightarrow> int \<Rightarrow> number \<Rightarrow> nat \<Rightarrow> nat \<Rightarrow> trace
    \<Rightarrow> (exn + pystr option) option \<times> trace" where
  "attempts srv max_retries delay 0 attempt t = (Some (Inr None), t)"
| "attempts srv max_retries delay (Suc n) attempt t =
     (let t1 = t\<lparr>requests := Suc (requests t)\<rparr> in
      case srv attempt of
        Response status h body \<Rightarrow>
          if status = 200 then (Some (Inr (Some body)), t1)
          else if status = 429 then
            (case wait_time delay attempt h of
               Inl e \<Rightarrow> (Some (Inl e), t1)
             | Inr w \<Rightarrow>
                 if int attempt < max_retries
                 then (case asyncio_sleep w of
                         None \<Rightarrow> (None, sleep w t1)
                       | Some (Inl e) \<Rightarrow> (Some (Inl e), sleep w t1)
                       | Some (Inr u) \<Rightarrow> attempts srv max_retries delay n (Suc attempt) (sleep w t1))
                 else (Some (Inl RateLimitError), t1))
          else if 500 \<le> status then
            (if int attempt < max_retries
             then (case backoff delay attempt of
                     Inl e \<Rightarrow> (Some (Inl e), t1)
                   | Inr d \<Rightarrow>
                       (case asyncio_sleep d of
                          None \<Rightarrow> (None, sleep d t1)
                        | Some (Inl e) \<Rightarrow> (Some (Inl e), sleep d t1)
                        | Some (Inr u) \<Rightarrow> attempts srv max_retries delay n (Suc attempt) (sleep d t1)))
             else (Some (Inl NetworkError), t1))
          else if status = 404 then (Some (Inr None), t1)
          else if 400 \<le> status then (Some (Inr None), t1)
          else attempts srv max_retries delay n (Suc attempt) t1
      | ClientError \<Rightarrow>
          if int attempt < max_retries
          then (case backoff delay attempt of
                  Inl e \<Rightarrow> (Some (Inl e), t1)
                | Inr d \<Rightarrow>
                    (case asyncio_sleep d of
                       None \<Rightarrow> (None, sleep d t1)
                     | Some (Inl e) \<Rightarrow> (Some (Inl e), sleep d t1)
                     | Some (Inr u) \<Rightarrow> attempts srv max_retries delay n (Suc attempt) (sleep d t1)))
          else (Some (Inl NetworkError), t1)
      | TimeoutError \<Rightarrow>
          if int attempt < max_retries
          then (case backoff delay attempt of
                  Inl e \<Rightarrow> (Some (Inl e), t1)
                | Inr d \<Rightarrow>
                    (case asyncio_sleep d of
                       None \<Rightarrow> (None, sleep d t1)
                     | Some (Inl e) \<Rightarrow> (Some (Inl e), sleep d t1)
                     | Some (Inr u) \<Rightarrow> attempts srv max_retries delay n (Suc attempt) (sleep d t1)))
          else (Some (Inl NetworkError), t1))"

text \<open>
  \<open>safe_request(url, max_retries=\<dots>, delay=\<dots>)\<close> against a server whose answer to the
  request of attempt \<open>k\<close> is \<open>srv k\<close>. \<open>range(max_retries + 1)\<close> is empty for a negative
  \<open>max_retries\<close>.
\<close>

definition safe_request :: "(nat \<Rightarrow> outcome) \<Rightarrow> int \<Rightarrow> number
    \<Rightarrow> (exn + pystr option) option \<times> trace" where
  "safe_request srv max_retries delay =
     attempts srv max_retries delay (nat (max_retries + 1)) 0 \<lparr>requests = 0, sleeps = []\<rparr>"

text \<open>A server that answers every request with status 500.\<close>

definition always_500 :: "(nat \<Rightarrow> outcome) \<Rightarrow> bool" where
  "always_500 srv = (\<forall>k. \<exists>h body. srv k = Response 500 h body)"

definition server_500 :: "nat \<Rightarrow> outcome" where
  "server_500 k = Response 500 Absent []"

text \<open>A server whose first answer has status 404.\<close>

definition server_404 :: "nat \<Rightarrow> outcome" where
  "server_404 k = Response 404 Absent []"

text \<open>\<open>a <= b\<close> on numbers: false when one of them is NaN, by value otherwise.\<close>

fun num_le :: "number \<Rightarrow> number \<Rightarrow> bool" where
  "num_le NaN b = False"
| "num_le a NaN = False"
| "num_le NegInf b = True"
| "num_le a PosInf = True"
| "num_le PosInf b = False"
| "num_le a NegInf = False"
| "num_le (IntNum m) (IntNum n) = (m \<le> n)"
| "num_le (IntNum m) (FloatNum y) = (real_of_int m \<le> y)"
| "num_le (FloatNum x) (IntNum n) = (x \<le> real_of_int n)"
| "num_le (FloatNum x) (FloatNum y) = (x \<le> y)"

section \<open>utils/file\_utils.py: sanitize\_filename and format\_audiobook\_filename\<close>

subsection \<open>unicodedata.normalize('NFKD', \<dots>)\<close>

text \<open>
  The normalization is a function of the Python runtime, not of this repository, so
  \<open>sanitize_filename\<close> takes it as its first argument. For concrete inputs it is the
  algorithm of the Unicode standard: every code point is replaced by its full compatibility
  decomposition, then the canonical ordering algorithm sorts each run of combining marks
  (code points of non-zero canonical combining class) by class, keeping the order of marks
  of equal class. The two tables of the Unicode Character Database that it reads are the
  fields of \<open>ucd\<close>.
\<close>

record ucd =
  decomposition :: "nat \<Rightarrow> nat list"
  combining :: "nat \<Rightarrow> nat"

fun reorder_insert :: "(nat \<Rightarrow> nat) \<Rightarrow> nat \<Rightarrow> pystr \<Rightarrow> pystr" where
  "reorder_insert ccc c [] = [c]"
| "reorder_insert ccc c (d # ds) =
     (if 0 < ccc d \<and> ccc d < ccc c then d # reorder_insert ccc c ds else c # d # ds)"

definition nfkd :: "ucd \<Rightarrow> pystr \<Rightarrow> pystr" where
  "nfkd u s = foldr (reorder_insert (combining u)) (concat (map (decomposition u) s)) []"

text \<open>
  The rows of the character database for the code points of the examples below: U+0000 to
  U+009F have no decomposition and combining class 0, U+00E9 (e with acute accent) has
  class 0 and decomposes into U+0065 U+0301, U+0301 (combining acute accent) has class 230
  and U+0323 (combining dot below) class 220, neither with a decomposition. No other code
  point occurs in the examples.
\<close>

definition ucd_excerpt :: ucd where
  "ucd_excerpt = \<lparr>decomposition = (\<lambda>c. if c = 233 then [101, 769] else [c]),
                   combining = (\<lambda>c. if c = 769 then 230 else if c = 803 then 220 else 0)\<rparr>"

text \<open>
  A string in canonical order: no mark stands right after a mark of a higher combining
  class. These are the strings that the canonical ordering algorithm leaves as they are.
\<close>

fun ordered :: "(nat \<Rightarrow> nat) \<Rightarrow> pystr \<Rightarrow> bool" where
  "ordered ccc [] = True"
| "ordered ccc [a] = True"
| "ordered ccc (a # b # s) = (\<not> (0 < ccc b \<and> ccc b < ccc a) \<and> ordered ccc (b # s))"

subsection \<open>sanitize\_filename\<close>

text \<open>The character class \<open>[<>:"|?*\\\/]\<close>: the code points of \<open>< > : " | ? * \ /\<close>.\<close>

definition invalid_chars :: "nat list" where
  "invalid_chars = [60, 62, 58, 34, 124, 63, 42, 92, 47]"

text \<open>The character class \<open>[\x00-\x1f\x7f-\x9f]\<close>.\<close>

definition is_control :: "nat \<Rightarrow> bool" where
  "is_control c = (c \<le> 31 \<or> (127 \<le> c \<and> c \<le> 159))"

text \<open>The character class \<open>[ _]\<close>: space (32) and underscore (95).\<close>

definition is_run :: "nat \<Rightarrow> bool" where
  "is_run c = (c = 32 \<or> c = 95)"

text \<open>\<open>re.sub(r'[ _]+', '_', s)\<close>: every maximal run of spaces and underscores, a run of
  length one included, becomes one underscore.\<close>

function collapse :: "pystr \<Rightarrow> pystr" where
  "collapse [] = []"
| "collapse (c # cs) =
     (if is_run c then 95 # collapse (dropWhile is_run cs) else c # collapse cs)"
  by pat_completeness auto
termination
  by (relation "measure length") (auto simp: le_imp_less_Suc length_dropWhile_le)

text \<open>\<open>s.strip(chars)\<close>.\<close>

definition strip_chars :: "nat list \<Rightarrow> pystr \<Rightarrow> pystr" where
  "strip_chars cs s = rev (dropWhile (\<lambda>c. c \<in> set cs) (rev (dropWhile (\<lambda>c. c \<in> set cs) s)))"

text \<open>\<open>s.strip()\<close> removes the code points for which \<open>str.isspace\<close> holds.\<close>

definition is_whitespace :: "nat \<Rightarrow> bool" where
  "is_whitespace c = ((9 \<le> c \<and> c \<le> 13) \<or> (28 \<le> c \<and> c \<le> 32) \<or> c = 133 \<or> c = 160
      \<or> c = 5760 \<or> (8192 \<le> c \<and> c \<le> 8202) \<or> c = 8232 \<or> c = 8233 \<or> c = 8239
      \<or> c = 8287 \<or> c = 12288)"

definition strip :: "pystr \<Rightarrow> pystr" where
  "strip s = rev (dropWhile is_whitespace (rev (dropWhile is_whitespace s)))"

text \<open>\<open>s[:k]\<close>: a negative \<open>k\<close> counts from the end.\<close>

definition slice_to :: "int \<Rightarrow> 'a list \<Rightarrow> 'a list" where
  "slice_to k s = (if 0 \<le> k then take (nat k) s else take (length s - nat (- k)) s)"

text \<open>\<open>s.rsplit('.', 1)\<close>: \<open>None\<close> stands for the one-element list (no dot in \<open>s\<close>),
  \<open>Some (name, ext)\<close> for the two parts around the last dot (46).\<close>

definition rsplit_dot :: "pystr \<Rightarrow> (pystr \<times> pystr) option" where
  "rsplit_dot s =
     (if 46 \<in> set s
      then Some (rev (drop 1 (dropWhile (\<lambda>c. c \<noteq> 46) (rev s))), rev (takeWhile (\<lambda>c. c \<noteq> 46) (rev s)))
      else None)"

definition sanitize_filename :: "(pystr \<Rightarrow> pystr) \<Rightarrow> pystr \<Rightarrow> int \<Rightarrow> pystr" where
  "sanitize_filename nf filename max_length =
     (let f1 = nf filename;
          f2 = map (\<lambda>c. if c \<in> set invalid_chars then 95 else c) f1;
          f3 = filter (\<lambda>c. \<not> is_control c) f2;
          f4 = collapse f3;
          f5 = strip_chars [32, 46] f4;
          f6 = (if f5 = [] then py ''untitled'' else f5)
      in if max_length < int (length f6)
         then (case rsplit_dot f6 of
                 Some (name, ext) \<Rightarrow>
                   if length ext \<le> 10
                   then slice_to (max_length - int (length ext) - 1) name @ [46] @ ext
                   else slice_to max_length f6
               | None \<Rightarrow> slice_to max_length f6)
         else f6)"

subsection \<open>format\_audiobook\_filename\<close>

text \<open>The local \<open>filename\<close> of \<open>format_audiobook_filename\<close> before it is sanitized:
  \<open>f"{author} - {title}.{extension}"\<close> of the stripped and defaulted arguments.\<close>

definition formatted_name :: "pystr \<Rightarrow> pystr \<Rightarrow> pystr \<Rightarrow> pystr" where
  "formatted_name title author extension =
     (let title1 = strip title;
          author1 = strip author;
          title2 = (if title1 = [] then py ''Unknown Title'' else title1);
          author2 = (if author1 = [] then py ''Unknown Author'' else author1)
      in author2 @ py '' - '' @ title2 @ py ''.'' @ extension)"

text \<open>\<open>sanitize_filename\<close> is called with its default \<open>max_length=255\<close>.\<close>

definition format_audiobook_filename :: "(pystr \<Rightarrow> pystr) \<Rightarrow> pystr \<Rightarrow> pystr \<Rightarrow> pystr \<Rightarrow> pystr" where
  "format_audiobook_filename nf title author extension =
     sanitize_filename nf (formatted_name title author extension) 255"

text \<open>A string that \<open>collapse\<close> leaves as it is: no space, no two underscores in a row.\<close>

fun collapsed :: "pystr \<Rightarrow> bool" where
  "collapsed [] = True"
| "collapsed [c] = (c \<noteq> 32)"
| "collapsed (c # d # s) = (c \<noteq> 32 \<and> \<not> (c = 95 \<and> d = 95) \<and> collapsed (d # s))"

section \<open>scraper/playlist\_extractor.py\<close>

subsection \<open>JSON values as json.loads builds them\<close>

text \<open>
  A \<open>dict\<close> keeps its items in insertion order and has no key twice, so an object is a list
  of pairs. Numbers are reals (the search below only asks whether a number is zero).
\<close>

datatype json =
    JNull | JBool bool | JNum real | JStr pystr | JArr "json list" | JObj "(pystr \<times> json) list"

text \<open>Truth value of a JSON value in \<open>if v\<close> and \<open>v and \<dots>\<close>.\<close>

fun truthy :: "json \<Rightarrow> bool" where
  "truthy JNull = False"
| "truthy (JBool b) = b"
| "truthy (JNum x) = (x \<noteq> 0)"
| "truthy (JStr s) = (s \<noteq> [])"
| "truthy (JArr xs) = (xs \<noteq> [])"
| "truthy (JObj kvs) = (kvs \<noteq> [])"

text \<open>
  \<open>key in v\<close> for a string \<open>key\<close>: a key test on a dict, an element test on a list, a
  substring test on a string, and \<open>TypeError\<close> on \<open>None\<close>, a bool or a number.
\<close>

fun py_in :: "pystr \<Rightarrow> json \<Rightarrow> exn + bool" where
  "py_in key (JObj kvs) = Inr (key \<in> set (map fst kvs))"
| "py_in key (JArr xs) = Inr (JStr key \<in> set xs)"
| "py_in key (JStr s) = Inr (sublist key s)"
| "py_in key _ = Inl TypeError"

text \<open>\<open>v[key]\<close> for a string \<open>key\<close>: only a dict can be indexed with a string.\<close>

fun py_getitem :: "json \<Rightarrow> pystr \<Rightarrow> exn + json" where
  "py_getitem (JObj kvs) key = (case map_of kvs key of Some v \<Rightarrow> Inr v | None \<Rightarrow> Inl KeyError)"
| "py_getitem _ key = Inl TypeError"

text \<open>\<open>for result in v\<close>: the items of a list, the keys of a dict, the characters of a string;
  nothing else can be iterated.\<close>

fun py_iter :: "json \<Rightarrow> exn + json list" where
  "py_iter (JArr xs) = Inr xs"
| "py_iter (JObj kvs) = Inr (map (\<lambda>kv. JStr (fst kv)) kvs)"
| "py_iter (JStr s) = Inr (map (\<lambda>c. JStr [c]) s)"
| "py_iter _ = Inl TypeError"

text \<open>
  \<open>if url and url.endswith('.m3u8'): return url\<close>: \<open>Some url\<close> when the branch is taken.
  A value that is true and not a string has no \<open>endswith\<close>.
\<close>

definition m3u8 :: pystr where
  "m3u8 = py ''.m3u8''"

fun m3u8_value :: "json \<Rightarrow> exn + pystr option" where
  "m3u8_value (JStr s) = Inr (if s \<noteq> [] \<and> endswith s m3u8 then Some s else None)"
| "m3u8_value v = (if truthy v then Inl AttributeError else Inr None)"

text \<open>\<open>if 'url' in v: url = v['url']; if url and url.endswith('.m3u8'): return url\<close>.\<close>

definition url_of :: "json \<Rightarrow> exn + pystr option" where
  "url_of v =
     (case py_in (py ''url'') v of
        Inl e \<Rightarrow> Inl e
      | Inr False \<Rightarrow> Inr None
      | Inr True \<Rightarrow> (case py_getitem v (py ''url'') of Inl e \<Rightarrow> Inl e | Inr u \<Rightarrow> m3u8_value u))"

text \<open>The loop \<open>for result in data['validationResults']\<close>.\<close>

fun validation_loop :: "json list \<Rightarrow> exn + pystr option" where
  "validation_loop [] = Inr None"
| "validation_loop (result # rest) =
     (case url_of result of
        Inl e \<Rightarrow> Inl e
      | Inr (Some u) \<Rightarrow> Inr (Some u)
      | Inr None \<Rightarrow> validation_loop rest)"

definition validation_results :: "json \<Rightarrow> exn + pystr option" where
  "validation_results data =
     (case py_in (py ''validationResults'') data of
        Inl e \<Rightarrow> Inl e
      | Inr False \<Rightarrow> Inr None
      | Inr True \<Rightarrow>
          (case py_getitem data (py ''validationResults'') of
             Inl e \<Rightarrow> Inl e
           | Inr v \<Rightarrow> (case py_iter v of Inl e \<Rightarrow> Inl e | Inr results \<Rightarrow> validation_loop results)))"

text \<open>
  The nested \<open>find_m3u8_recursive\<close>: \<open>find_in_items\<close> is its loop over \<open>obj.items()\<close>,
  \<open>find_in_list\<close> its loop over a list. A string is looked at only as the value of a
  dict item; called on a string (a list element), the function returns \<open>None\<close>.
\<close>

fun find_m3u8_recursive :: "json \<Rightarrow> pystr option"
  and find_in_items :: "(pystr \<times> json) list \<Rightarrow> pystr option"
  and find_in_list :: "json list \<Rightarrow> pystr option" where
  "find_m3u8_recursive (JObj kvs) = find_in_items kvs"
| "find_m3u8_recursive (JArr xs) = find_in_list xs"
| "find_m3u8_recursive JNull = None"
| "find_m3u8_recursive (JBool b) = None"
| "find_m3u8_recursive (JNum x) = None"
| "find_m3u8_recursive (JStr s) = None"
| "find_in_items [] = None"
| "find_in_items (kv # rest) =
     (case snd kv of
        JStr s \<Rightarrow> if endswith s m3u8 then Some s else find_in_items rest
      | JObj kvs \<Rightarrow>
          (case find_m3u8_recursive (JObj kvs) of
             Some r \<Rightarrow> if r \<noteq> [] then Some r else find_in_items rest
           | None \<Rightarrow> find_in_items rest)
      | JArr xs \<Rightarrow>
          (case find_m3u8_recursive (JArr xs) of
             Some r \<Rightarrow> if r \<noteq> [] then Some r else find_in_items rest
           | None \<Rightarrow> find_in_items rest)
      | _ \<Rightarrow> find_in_items rest)"
| "find_in_list [] = None"
| "find_in_list (item # rest) =
     (case find_m3u8_recursive item of
        Some r \<Rightarrow> if r \<noteq> [] then Some r else find_in_list rest
      | None \<Rightarrow> find_in_list rest)"

text \<open>The statements of the \<open>try\<close> block after \<open>data = response.json()\<close>.\<close>

definition search_response :: "json \<Rightarrow> exn + pystr option" where
  "search_response data =
     (case url_of data of
        Inl e \<Rightarrow> Inl e
      | Inr (Some u) \<Rightarrow> Inr (Some u)
      | Inr None \<Rightarrow>
          (case validation_results data of
             Inl e \<Rightarrow> Inl e
           | Inr (Some u) \<Rightarrow> Inr (Some u)
           | Inr None \<Rightarrow> Inr (find_m3u8_recursive data)))"

text \<open>
  What the call of the validation API does: \<open>session.get\<close> raises (connection error,
  timeout), \<open>raise_for_status\<close> raises \<open>HTTPError\<close> (a \<open>RequestException\<close>) on a 4xx or
  5xx status, \<open>response.json()\<close> raises on a body that is not JSON, some other exception
  is raised, or the body parses to a JSON value.
\<close>

datatype api_outcome =
    ApiRequestFailed | ApiHttpError | ApiBadJson | ApiRaises exn | ApiJson json

definition api_try_block :: "api_outcome \<Rightarrow> exn + pystr option" where
  "api_try_block out =
     (case out of
        ApiRequestFailed \<Rightarrow> Inl RequestException
      | ApiHttpError \<Rightarrow> Inl RequestException
      | ApiBadJson \<Rightarrow> Inl JSONDecodeError
      | ApiRaises e \<Rightarrow> Inl e
      | ApiJson data \<Rightarrow> search_response data)"

text \<open>\<open>get_playlist_from_api\<close>: the three handlers log, and \<open>return None\<close> follows them.\<close>

definition get_playlist_from_api :: "api_outcome \<Rightarrow> exn + pystr option" where
  "get_playlist_from_api out = catch_all (api_try_block out) None"

subsection \<open>extract\_media\_id and extract\_playlist\_url\<close>

text \<open>What a step inside a \<open>try\<close> block does: it raises, or it yields a value.\<close>

datatype 'a event = Raises exn | Yields 'a

text \<open>
  What the page gives to \<open>extract_media_id\<close>: the results of \<open>re.findall\<close> for the four
  patterns of method 1, in order; for method 2 the values of \<open>element.get(attr)\<close> in the
  order in which the three nested loops read them, up to an exception if parsing or
  selecting raises one; for method 3 the \<open>re.findall\<close> results of the scripts that have a
  string, in order, again up to an exception.
\<close>

record page =
  media_id_matches :: "pystr list list"
  data_attributes :: "pystr option event list"
  script_numbers :: "pystr list event list"

text \<open>Method 1: the first pattern with a match gives \<open>matches[0].strip('"\'')\<close>.\<close>

fun method1 :: "pystr list list \<Rightarrow> pystr option" where
  "method1 [] = None"
| "method1 (matches # rest) =
     (case matches of [] \<Rightarrow> method1 rest | first # _ \<Rightarrow> Some (strip_chars [34, 39] first))"

text \<open>Method 2: \<open>if value and value.isdigit(): return value\<close>; \<open>isdigit\<close> is \<open>str.isdigit\<close>.\<close>

fun method2 :: "(pystr \<Rightarrow> bool) \<Rightarrow> pystr option event list \<Rightarrow> exn + pystr option" where
  "method2 isdigit [] = Inr None"
| "method2 isdigit (Raises e # rest) = Inl e"
| "method2 isdigit (Yields None # rest) = method2 isdigit rest"
| "method2 isdigit (Yields (Some v) # rest) =
     (if v \<noteq> [] \<and> isdigit v then Inr (Some v) else method2 isdigit rest)"

text \<open>Method 3: the first script with a match gives its first match.\<close>

fun method3 :: "pystr list event list \<Rightarrow> exn + pystr option" where
  "method3 [] = Inr None"
| "method3 (Raises e # rest) = Inl e"
| "method3 (Yields [] # rest) = method3 rest"
| "method3 (Yields (first # ids) # rest) = Inr (Some first)"

text \<open>Method 1 runs outside any \<open>try\<close>; methods 2 and 3 each in a \<open>try\<close> whose handler
  logs a warning and goes on.\<close>

definition extract_media_id :: "(pystr \<Rightarrow> bool) \<Rightarrow> page \<Rightarrow> exn + pystr option" where
  "extract_media_id isdigit p =
     (case method1 (media_id_matches p) of
        Some media_id \<Rightarrow> Inr (Some media_id)
      | None \<Rightarrow>
          (case catch_all (method2 isdigit (data_attributes p)) None of
             Inl e \<Rightarrow> Inl e
           | Inr (Some v) \<Rightarrow> Inr (Some v)
           | Inr None \<Rightarrow> catch_all (method3 (script_numbers p)) None))"

text \<open>\<open>extract_playlist_url\<close>; \<open>api\<close> is what the validation API does for a media id.\<close>

definition extract_playlist_url ::
    "(pystr \<Rightarrow> bool) \<Rightarrow> (pystr \<Rightarrow> api_outcome) \<Rightarrow> page \<Rightarrow> exn + pystr option" where
  "extract_playlist_url isdigit api p =
     (case extract_media_id isdigit p of
        Inl e \<Rightarrow> Inl e
      | Inr None \<Rightarrow> Inr None
      | Inr (Some media_id) \<Rightarrow>
          if media_id = [] then Inr None else get_playlist_from_api (api media_id))"

subsection \<open>The priority order as the specification words it\<close>

text \<open>All strings of a JSON value in the order of a depth-first traversal.\<close>

fun all_strings :: "json \<Rightarrow> pystr list"
  and all_strings_items :: "(pystr \<times> json) list \<Rightarrow> pystr list"
  and all_strings_list :: "json list \<Rightarrow> pystr list" where
  "all_strings (JStr s) = [s]"
| "all_strings (JArr xs) = all_strings_list xs"
| "all_strings (JObj kvs) = all_strings_items kvs"
| "all_strings JNull = []"
| "all_strings (JBool b) = []"
| "all_strings (JNum x) = []"
| "all_strings_items [] = []"
| "all_strings_items (kv # rest) = all_strings (snd kv) @ all_strings_items rest"
| "all_strings_list [] = []"
| "all_strings_list (item # rest) = all_strings item @ all_strings_list rest"

text \<open>The \<open>url\<close> value of an object, if it is a string.\<close>

fun url_string :: "json \<Rightarrow> pystr list" where
  "url_string (JObj kvs) = (case map_of kvs (py ''url'') of Some (JStr s) \<Rightarrow> [s] | _ \<Rightarrow> [])"
| "url_string _ = []"

fun validation_entries :: "json \<Rightarrow> json list" where
  "validation_entries (JObj kvs) =
     (case map_of kvs (py ''validationResults'') of Some (JArr rs) \<Rightarrow> rs | _ \<Rightarrow> [])"
| "validation_entries _ = []"

text \<open>
  The first URL by the stated priority: the top-level \<open>url\<close>, then the \<open>url\<close> of each
  entry of the top-level \<open>validationResults\<close> list, then every string of the response in
  depth-first order; the first of these that ends in \<open>.m3u8\<close>.
\<close>

definition spec_playlist :: "json \<Rightarrow> pystr option" where
  "spec_playlist data =
     find (\<lambda>s. endswith s m3u8)
       (url_string data @ concat (map url_string (validation_entries data)) @ all_strings data)"

text \<open>A \<open>url\<close> value that the search can test without an exception: absent, a string, or
  a value that counts as false.\<close>

fun url_testable :: "json \<Rightarrow> bool" where
  "url_testable (JObj kvs) =
     (case map_of kvs (py ''url'') of None \<Rightarrow> True | Some (JStr s) \<Rightarrow> True | Some v \<Rightarrow> \<not> truthy v)"
| "url_testable _ = False"

text \<open>A response on which the first two steps raise nothing by its shape: an object with a
  testable \<open>url\<close> whose \<open>validationResults\<close>, if present, is a list of such objects.\<close>

fun well_shaped :: "json \<Rightarrow> bool" where
  "well_shaped (JObj kvs) =
     (url_testable (JObj kvs) \<and>
      (case map_of kvs (py ''validationResults'') of
         None \<Rightarrow> True
       | Some (JArr rs) \<Rightarrow> list_all url_testable rs
       | Some _ \<Rightarrow> False))"
| "well_shaped _ = False"

text \<open>No list of the value has an element that is itself a string ending in \<open>.m3u8\<close>.\<close>

fun no_url_elements :: "json \<Rightarrow> bool"
  and no_url_elements_items :: "(pystr \<times> json) list \<Rightarrow> bool"
  and no_url_elements_list :: "json list \<Rightarrow> bool" where
  "no_url_elements (JArr xs) = no_url_elements_list xs"
| "no_url_elements (JObj kvs) = no_url_elements_items kvs"
| "no_url_elements (JStr s) = True"
| "no_url_elements JNull = True"
| "no_url_elements (JBool b) = True"
| "no_url_elements (JNum x) = True"
| "no_url_elements_items [] = True"
| "no_url_elements_items (kv # rest) = (no_url_elements (snd kv) \<and> no_url_elements_items rest)"
| "no_url_elements_list [] = True"
| "no_url_elements_list (item # rest) =
     ((case item of JStr s \<Rightarrow> \<not> endswith s m3u8 | _ \<Rightarrow> no_url_elements item)
      \<and> no_url_elements_list rest)"


text \<open>The responses of the examples.\<close>

definition nested_response :: json where
  "nested_response =
     JObj [(py ''validationResults'',
            JArr [JObj [(py ''other'', JNum 1)], JObj [(py ''url'', JStr (py ''https://y/z.m3u8''))]])]"

definition numeric_url_response :: json where
  "numeric_url_response =
     JObj [(py ''url'', JNum 5), (py ''stream'', JStr (py ''https://y/z.m3u8''))]"

definition url_list_response :: json where
  "url_list_response = JObj [(py ''playlists'', JArr [JStr (py ''https://y/z.m3u8'')])]"

text \<open>\<open>str.isdigit\<close> on ASCII strings.\<close>

definition ascii_isdigit :: "pystr \<Rightarrow> bool" where
  "ascii_isdigit s = (s \<noteq> [] \<and> list_all (\<lambda>c. 48 \<le> c \<and> c \<le> 57) s)"


text \<open>The page of the happy path: a script holds \<open>"mediaId":"1234567"\<close>. The first
  pattern matches it with the group \<open>1234567\<close>, the second does not (a quote follows the
  colon), the third matches with the same group, the fourth does not; the script holds one
  number of seven digits.\<close>

definition happy_page :: page where
  "happy_page = \<lparr>media_id_matches = [[py ''1234567''], [], [py ''1234567''], []],
                  data_attributes = [],
                  script_numbers = [Yields [py ''1234567'']]\<rparr>"

definition happy_response :: json where
  "happy_response = JObj [(py ''url'', JStr (py ''https://x/master.m3u8''))]"

definition api_happy :: "pystr \<Rightarrow> api_outcome" where
  "api_happy media_id = (if media_id = py ''1234567'' then ApiJson happy_response else ApiHttpError)"



section \<open>scraper/audiobook\_scraper.py\<close>

record AudiobookMetadata =
  title :: pystr
  author :: pystr
  url :: pystr
  playlist_url :: "pystr option"
  description :: "pystr option"
  duration :: "pystr option"
  publication_date :: "pystr option"
  genre :: "pystr option"
  language :: pystr
  thumbnail_url :: "pystr option"
  thumbnail_data :: "nat list option"
  isbn :: "pystr option"
  publisher :: "pystr option"
  narrator :: "pystr option"
  series :: "pystr option"
  series_number :: "int option"

text \<open>\<open>not v\<close> for an optional string: \<open>None\<close> and the empty string count as false.\<close>

definition falsy :: "pystr option \<Rightarrow> bool" where
  "falsy v = (case v of None \<Rightarrow> True | Some s \<Rightarrow> s = [])"

subsection \<open>\_clean\_title and \_extract\_title\<close>

definition title_suffixes :: "pystr list" where
  "title_suffixes =
     [py '' | ICI OHdio'', py '' | Radio-Canada'', py '' - OHdio'', py '' - Radio-Canada'',
      py '' - Livre audio'']"

text \<open>The loop \<open>for suffix in suffixes_to_remove: if title.endswith(suffix): title =
  title[:-len(suffix)]\<close>; it does not stop at the first suffix found.\<close>

fun remove_suffixes :: "pystr list \<Rightarrow> pystr \<Rightarrow> pystr" where
  "remove_suffixes [] t = t"
| "remove_suffixes (suf # rest) t =
     remove_suffixes rest (if endswith t suf then slice_to (- int (length suf)) t else t)"

definition clean_title :: "pystr \<Rightarrow> pystr" where
  "clean_title t = strip (remove_suffixes title_suffixes t)"

text \<open>
  \<open>_extract_title\<close>. Its argument lists, for the seven selectors in order, what the
  \<open>try\<close> block of the selector computes before the test \<open>if title and len(title) > 2\<close>:
  an exception (caught, the loop goes on), no text (no element, or a \<open>meta\<close> element
  without \<open>content\<close>), or the text of the element.
\<close>

fun extract_title :: "pystr option event list \<Rightarrow> pystr option" where
  "extract_title [] = None"
| "extract_title (Raises e # rest) = extract_title rest"
| "extract_title (Yields None # rest) = extract_title rest"
| "extract_title (Yields (Some t) # rest) =
     (if t \<noteq> [] \<and> 2 < length t
      then (let cleaned = clean_title t in if cleaned \<noteq> [] then Some cleaned else extract_title rest)
      else extract_title rest)"

subsection \<open>\_clean\_author and \_extract\_author\<close>

definition startswith :: "pystr \<Rightarrow> pystr \<Rightarrow> bool" where
  "startswith s p = (take (length p) s = p)"

definition author_prefixes :: "pystr list" where
  "author_prefixes = [py ''par '', py ''by '', py ''de '', py ''auteur: '']"

text \<open>The loop of \<open>_clean_author\<close>: the first prefix that the lowered text starts with is cut
  from the text itself, and the loop breaks.\<close>

fun remove_prefix :: "pystr list \<Rightarrow> pystr \<Rightarrow> pystr \<Rightarrow> pystr" where
  "remove_prefix [] author_lower a = a"
| "remove_prefix (p # rest) author_lower a =
     (if startswith author_lower p then drop (length p) a else remove_prefix rest author_lower a)"

text \<open>\<open>lower\<close> is \<open>str.lower\<close> of the runtime.\<close>

definition clean_author :: "(pystr \<Rightarrow> pystr) \<Rightarrow> pystr \<Rightarrow> pystr" where
  "clean_author lower a = strip (remove_prefix author_prefixes (lower a) a)"

text \<open>The selector loop of \<open>_extract_author\<close>, over the six selectors.\<close>

fun author_by_selectors :: "(pystr \<Rightarrow> pystr) \<Rightarrow> pystr option event list \<Rightarrow> pystr option" where
  "author_by_selectors lower [] = None"
| "author_by_selectors lower (Raises e # rest) = author_by_selectors lower rest"
| "author_by_selectors lower (Yields None # rest) = author_by_selectors lower rest"
| "author_by_selectors lower (Yields (Some a) # rest) =
     (if a \<noteq> [] \<and> 1 < length a
      then (let cleaned = clean_author lower a
            in if cleaned \<noteq> [] then Some cleaned else author_by_selectors lower rest)
      else author_by_selectors lower rest)"

text \<open>
  The optional fields, as the helper methods return them (each helper catches the
  exceptions of its selectors); \<open>downloaded_thumbnail\<close> is what \<open>_download_thumbnail\<close>
  returns for the thumbnail URL.
\<close>

record details =
  found_description :: "pystr option"
  found_duration :: "pystr option"
  found_publication_date :: "pystr option"
  found_genre :: "pystr option"
  found_thumbnail_url :: "pystr option"
  downloaded_thumbnail :: "nat list option"
  found_isbn :: "pystr option"
  found_publisher :: "pystr option"
  found_narrator :: "pystr option"
  found_series_info :: "(pystr \<times> int option) option"

text \<open>
  What \<open>_extract_metadata\<close> reads from the parsed page: the texts for the title and author
  selectors, the result of the regular expressions and line scans that
  \<open>_extract_author\<close> runs when no selector gives an author (searches of the \<open>re\<close> module
  over the page, taken as they return), the data for the media id, and the optional fields
  (or the exception that one of their helpers lets through).
\<close>

record book_page =
  title_elements :: "pystr option event list"
  author_elements :: "pystr option event list"
  author_by_patterns :: "pystr option"
  media :: page
  optional_fields :: "details event"

definition extract_author :: "(pystr \<Rightarrow> pystr) \<Rightarrow> book_page \<Rightarrow> pystr option" where
  "extract_author lower bp =
     (case author_by_selectors lower (author_elements bp) of
        Some a \<Rightarrow> Some a
      | None \<Rightarrow> author_by_patterns bp)"

subsection \<open>\_extract\_metadata and scrape\_audiobook\<close>

definition extract_metadata ::
    "(pystr \<Rightarrow> pystr) \<Rightarrow> (pystr \<Rightarrow> bool) \<Rightarrow> (pystr \<Rightarrow> api_outcome) \<Rightarrow> book_page \<Rightarrow> pystr
     \<Rightarrow> exn + AudiobookMetadata option" where
  "extract_metadata lower isdigit api bp page_url =
     (let t = extract_title (title_elements bp);
          a = extract_author lower bp
      in if falsy t \<or> falsy a then Inr None
         else
           (case extract_playlist_url isdigit api (media bp) of
              Inl e \<Rightarrow> Inl e
            | Inr playlist \<Rightarrow>
                (case optional_fields bp of
                   Raises e \<Rightarrow> Inl e
                 | Yields d \<Rightarrow>
                     Inr (Some
                       \<lparr>title = the t, author = the a, url = page_url,
                        playlist_url = playlist,
                        description = found_description d,
                        duration = found_duration d,
                        publication_date = found_publication_date d,
                        genre = found_genre d,
                        language = py ''fr'',
                        thumbnail_url = found_thumbnail_url d,
                        thumbnail_data =
                          (if falsy (found_thumbnail_url d) then None else downloaded_thumbnail d),
                        isbn = found_isbn d,
                        publisher = found_publisher d,
                        narrator = found_narrator d,
                        series = map_option fst (found_series_info d),
                        series_number = Option.bind (found_series_info d) snd\<rparr>))))"


text \<open>\<open>str.lower\<close> on ASCII strings.\<close>

definition ascii_lower :: "pystr \<Rightarrow> pystr" where
  "ascii_lower = map (\<lambda>c. if 65 \<le> c \<and> c \<le> 90 then c + 32 else c)"

definition no_details :: details where
  "no_details = \<lparr>found_description = None, found_duration = None, found_publication_date = None,
                  found_genre = Some (py ''Jeunesse''), found_thumbnail_url = None,
                  downloaded_thumbnail = None, found_isbn = None, found_publisher = None,
                  found_narrator = None, found_series_info = None\<rparr>"

text \<open>
  The page of the happy path: \<open><h1>Title X</h1>\<close> answers the first title selector, no
  author selector matches, the pattern for ``Ecrit par'' in the HTML gives \<open>Jane Doe\<close>,
  and a script holds the media id.
\<close>

definition happy_book_page :: book_page where
  "happy_book_page =
     \<lparr>title_elements = [Yields (Some (py ''Title X''))],
      author_elements = [Yields None, Yields None, Yields None, Yields None, Yields None, Yields None],
      author_by_patterns = Some (py ''Jane Doe''),
      media = happy_page,
      optional_fields = Yields no_details\<rparr>"

text \<open>A page with a heading and no author anywhere.\<close>

definition anonymous_book_page :: book_page where
  "anonymous_book_page =
     \<lparr>title_elements = [Yields (Some (py ''Title X''))],
      author_elements = [Yields None, Yields None, Yields None, Yields None, Yields None, Yields None],
      author_by_patterns = None,
      media = happy_page,
      optional_fields = Yields no_details\<rparr>"

text \<open>The record that the happy path is to produce.\<close>

definition happy_metadata :: AudiobookMetadata where
  "happy_metadata =
     \<lparr>title = py ''Title X'', author = py ''Jane Doe'', url = py ''https://site/book'',
      playlist_url = Some (py ''https://x/master.m3u8''),
      description = None, duration = None, publication_date = None,
      genre = Some (py ''Jeunesse''), language = py ''fr'', thumbnail_url = None,
      thumbnail_data = None, isbn = None, publisher = None, narrator = None,
      series = None, series_number = None\<rparr>"

section \<open>scraper/category\_scraper.py: \_parse\_category\_page\<close>

record AudiobookInfo =
  title :: pystr
  author :: pystr
  url :: pystr
  thumbnail_url :: "pystr option"
  description :: "pystr option"

text \<open>
  The loop over \<open>parsing_methods\<close>. Each method raises (the exception is caught and logged)
  or returns its list of books; a list that is not empty is appended to \<open>audiobooks\<close>.
\<close>

fun run_methods :: "AudiobookInfo list event list \<Rightarrow> AudiobookInfo list \<Rightarrow> AudiobookInfo list" where
  "run_methods [] audiobooks = audiobooks"
| "run_methods (Raises e # rest) audiobooks = run_methods rest audiobooks"
| "run_methods (Yields books # rest) audiobooks =
     run_methods rest (if books \<noteq> [] then audiobooks @ books else audiobooks)"

text \<open>The loop that removes duplicates, with its two variables \<open>seen_urls\<close> and
  \<open>unique_audiobooks\<close>.\<close>

fun unique_loop :: "AudiobookInfo list \<Rightarrow> pystr set \<Rightarrow> AudiobookInfo list \<Rightarrow> AudiobookInfo list" where
  "unique_loop [] seen_urls unique_audiobooks = unique_audiobooks"
| "unique_loop (book # rest) seen_urls unique_audiobooks =
     (if AudiobookInfo.url book \<notin> seen_urls
      then unique_loop rest (insert (AudiobookInfo.url book) seen_urls) (unique_audiobooks @ [book])
      else unique_loop rest seen_urls unique_audiobooks)"

text \<open>
  \<open>_parse_category_page\<close>, given what the four strategies do on the parsed page, in the
  order of \<open>parsing_methods\<close>: \<open>_parse_index_grid_items\<close>, \<open>_parse_book_items\<close>,
  \<open>_parse_livre_audio_sections\<close>, \<open>_parse_generic_links\<close>.
\<close>

definition parse_category_page ::
    "AudiobookInfo list event \<Rightarrow> AudiobookInfo list event \<Rightarrow> AudiobookInfo list event
     \<Rightarrow> AudiobookInfo list event \<Rightarrow> AudiobookInfo list" where
  "parse_category_page grid_items book_items livre_audio_sections generic_links =
     unique_loop (run_methods [grid_items, book_items, livre_audio_sections, generic_links] []) {} []"

text \<open>The entries that a strategy contributes.\<close>

fun found :: "AudiobookInfo list event \<Rightarrow> AudiobookInfo list" where
  "found (Raises e) = []"
| "found (Yields books) = books"

text \<open>The entries of a list whose URL is not in \<open>seen\<close> and occurs for the first time.\<close>

fun firsts :: "pystr set \<Rightarrow> AudiobookInfo list \<Rightarrow> AudiobookInfo list" where
  "firsts seen [] = []"
| "firsts seen (book # rest) =
     (if AudiobookInfo.url book \<in> seen then firsts seen rest
      else book # firsts (insert (AudiobookInfo.url book) seen) rest)"

text \<open>Two strategies that find the same page under different titles.\<close>

definition grid_book :: AudiobookInfo where
  "grid_book = \<lparr>title = py ''Grid title'', author = py ''Unknown Author'',
                 url = py ''https://site/livres-audio/1'', thumbnail_url = None, description = None\<rparr>"

definition link_book :: AudiobookInfo where
  "link_book = \<lparr>title = py ''Link title'', author = py ''Unknown Author'',
                 url = py ''https://site/livres-audio/1'', thumbnail_url = None, description = None\<rparr>"

definition other_book :: AudiobookInfo where
  "other_book = \<lparr>title = py ''Other'', author = py ''Unknown Author'',
                  url = py ''https://site/livres-audio/2'', thumbnail_url = None, description = None\<rparr>"

section \<open>main.py: \_process\_single\_audiobook\<close>

record stats =
  discovered :: int
  processed :: int
  downloaded :: int
  failed :: int
  skipped :: int

record config =
  output_directory :: pystr
  skip_existing :: bool
  embed_metadata :: bool

text \<open>
  The state that a call changes: the counters, and a log of the calls of the external
  downloader (the playlist URL of each call of \<open>download_audiobook\<close>) and of the tagger
  (the file of each call of \<open>embed_metadata\<close>).
\<close>

record run_state =
  stats :: stats
  downloader_calls :: "pystr list"
  tagger_calls :: "pystr list"

text \<open>
  What the collaborators do for one item: the result of \<open>scrape_audiobook\<close> (or the
  exception it raises), of \<open>output_path.exists()\<close> for a directory and a file name, of
  \<open>download_audiobook\<close> (an exception, \<open>None\<close>, or the path of the file), and of
  \<open>embed_metadata\<close>, which catches its own exceptions and returns a bool.
\<close>

record item_world =
  scraped :: "exn + AudiobookMetadata option"
  file_exists :: "pystr \<Rightarrow> pystr \<Rightarrow> bool event"
  download_result :: "pystr option event"
  embed_result :: bool

text \<open>\<open>YtDlpDownloader._generate_filename\<close>.\<close>

definition generate_filename :: "(pystr \<Rightarrow> pystr) \<Rightarrow> pystr \<Rightarrow> pystr \<Rightarrow> pystr" where
  "generate_filename nf t a = format_audiobook_filename nf t a (py ''mp3'')"

definition bump_processed :: "run_state \<Rightarrow> run_state" where
  "bump_processed st = st\<lparr>stats := (stats st)\<lparr>processed := processed (stats st) + 1\<rparr>\<rparr>"

definition bump_failed :: "run_state \<Rightarrow> run_state" where
  "bump_failed st = st\<lparr>stats := (stats st)\<lparr>failed := failed (stats st) + 1\<rparr>\<rparr>"

definition bump_skipped :: "run_state \<Rightarrow> run_state" where
  "bump_skipped st = st\<lparr>stats := (stats st)\<lparr>skipped := skipped (stats st) + 1\<rparr>\<rparr>"

definition bump_downloaded :: "run_state \<Rightarrow> run_state" where
  "bump_downloaded st = st\<lparr>stats := (stats st)\<lparr>downloaded := downloaded (stats st) + 1\<rparr>\<rparr>"

text \<open>Steps 3 and 4 of \<open>_process_single_audiobook\<close>: the download and the tags. An
  exception of the download reaches the handler of the method, which counts a failure.\<close>

definition download_and_tag :: "config \<Rightarrow> item_world \<Rightarrow> AudiobookMetadata \<Rightarrow> run_state \<Rightarrow> bool \<times> run_state" where
  "download_and_tag cfg w metadata st =
     (let st1 = st\<lparr>downloader_calls := downloader_calls st @ [the (AudiobookMetadata.playlist_url metadata)]\<rparr>
      in case download_result w of
           Raises e \<Rightarrow> (False, bump_failed st1)
         | Yields downloaded_file \<Rightarrow>
             if falsy downloaded_file then (False, bump_failed st1)
             else
               (let st2 = (if embed_metadata cfg
                           then st1\<lparr>tagger_calls := tagger_calls st1 @ [the downloaded_file]\<rparr>
                           else st1)
                in (True, bump_downloaded st2)))"

text \<open>
  \<open>_process_single_audiobook\<close>: the returned bool and the new state. \<open>nf\<close> is the
  normalization that \<open>sanitize_filename\<close> uses. \<open>output_path.exists()\<close> is evaluated only
  when \<open>skip_existing\<close> is set; any exception ends in the handler, which counts a failure.
\<close>

definition process_single_audiobook ::
    "config \<Rightarrow> (pystr \<Rightarrow> pystr) \<Rightarrow> item_world \<Rightarrow> run_state \<Rightarrow> bool \<times> run_state" where
  "process_single_audiobook cfg nf w st =
     (let st1 = bump_processed st in
      case scraped w of
        Inl e \<Rightarrow> (False, bump_failed st1)
      | Inr None \<Rightarrow> (False, bump_failed st1)
      | Inr (Some metadata) \<Rightarrow>
          if falsy (AudiobookMetadata.playlist_url metadata) then (False, bump_failed st1)
          else
            (let filename = generate_filename nf (AudiobookMetadata.title metadata)
                              (AudiobookMetadata.author metadata)
             in if skip_existing cfg
                then (case file_exists w (output_directory cfg) filename of
                        Raises e \<Rightarrow> (False, bump_failed st1)
                      | Yields True \<Rightarrow> (True, bump_skipped st1)
                      | Yields False \<Rightarrow> download_and_tag cfg w metadata st1)
                else download_and_tag cfg w metadata st1))"


text \<open>The state of a new \<open>OHdioDownloader\<close>.\<close>

definition initial_state :: run_state where
  "initial_state =
     \<lparr>stats = \<lparr>discovered = 0, processed = 0, downloaded = 0, failed = 0, skipped = 0\<rparr>,
      downloader_calls = [], tagger_calls = []\<rparr>"

definition default_config :: config where
  "default_config = \<lparr>output_directory = py ''downloads'', skip_existing = True, embed_metadata = True\<rparr>"

text \<open>An item whose file is already there, an item that downloads and whose tagging fails,
  and an item whose page cannot be fetched.\<close>

definition existing_item :: item_world where
  "existing_item =
     \<lparr>scraped = Inr (Some happy_metadata),
      file_exists = (\<lambda>d f. Yields True),
      download_result = Yields (Some (py ''downloads/x.mp3'')),
      embed_result = True\<rparr>"

definition untagged_item :: item_world where
  "untagged_item =
     \<lparr>scraped = Inr (Some happy_metadata),
      file_exists = (\<lambda>d f. Yields False),
      download_result = Yields (Some (py ''downloads/x.mp3'')),
      embed_result = False\<rparr>"

definition unreachable_item :: item_world where
  "unreachable_item =
     \<lparr>scraped = Inl NetworkError,
      file_exists = (\<lambda>d f. Yields False),
      download_result = Yields None,
      embed_result = False\<rparr>"

section \<open>Properties of safe\_request\<close>

lemma srv_500: "always_500 srv \<Longrightarrow> \<exists>h body. srv k = Response 500 h body"
  by (simp add: always_500_def)

lemma always_500_server_500: "always_500 server_500"
  by (simp add: always_500_def server_500_def)

lemma attempts_500_retry:
  "srv k = Response 500 h body \<Longrightarrow> int k < mr \<Longrightarrow> \<not> is_float delay \<or> k < 1024 \<Longrightarrow>
   asyncio_sleep (scaled delay k) = Some (Inr ()) \<Longrightarrow>
   attempts srv mr delay (Suc n) k t =
     attempts srv mr delay n (Suc k) (sleep (scaled delay k) (t\<lparr>requests := Suc (requests t)\<rparr>))"
  by (auto simp: Let_def backoff_def)

lemma attempts_500_last:
  "srv k = Response 500 h body \<Longrightarrow> \<not> int k < mr \<Longrightarrow>
   attempts srv mr delay (Suc n) k t = (Some (Inl NetworkError), t\<lparr>requests := Suc (requests t)\<rparr>)"
  by (simp add: Let_def)

lemma attempts_500_overflow:
  "srv k = Response 500 h body \<Longrightarrow> int k < mr \<Longrightarrow> is_float delay \<Longrightarrow> 1024 \<le> k \<Longrightarrow>
   attempts srv mr delay (Suc n) k t = (Some (Inl OverflowError), t\<lparr>requests := Suc (requests t)\<rparr>)"
  by (simp add: Let_def backoff_def)

text \<open>
  Against a server that always answers 500, when no multiplication overflows and every
  sleep returns: from attempt \<open>k\<close> with \<open>Suc n\<close> iterations left, the loop issues \<open>Suc n\<close>
  more requests, sleeps \<open>delay * (2 ** i)\<close> after each attempt \<open>i\<close> but the last, and
  raises \<open>NetworkError\<close>.
\<close>

lemma attempts_500:
  assumes srv: "always_500 srv" and mr: "\<not> is_float delay \<or> nat mr \<le> 1024"
    and wake: "\<forall>i<nat mr. asyncio_sleep (scaled delay i) = Some (Inr ())"
  shows "Suc n + k = nat mr + 1 \<Longrightarrow>
    attempts srv mr delay (Suc n) k t =
      (Some (Inl NetworkError),
       \<lparr>requests = requests t + Suc n, sleeps = sleeps t @ map (scaled delay) [k..<nat mr]\<rparr>)"
proof (induction n arbitrary: k t)
  case 0
  obtain h body where r: "srv k = Response 500 h body" using srv_500[OF srv] by blast
  from 0 have k: "k = nat mr" by simp
  then have "\<not> int k < mr" by simp
  then show ?case using attempts_500_last[of srv k h body mr delay 0 t] r k by simp
next
  case (Suc n)
  obtain h body where r: "srv k = Response 500 h body" using srv_500[OF srv] by blast
  from Suc.prems have lt: "k < nat mr" by simp
  then have lt': "int k < mr" by simp
  from lt mr have k: "\<not> is_float delay \<or> k < 1024" by auto
  from lt wake have w: "asyncio_sleep (scaled delay k) = Some (Inr ())" by simp
  from Suc.prems have "Suc n + Suc k = nat mr + 1" by simp
  from Suc.IH[OF this] show ?case
    using attempts_500_retry[of srv k h body mr delay "Suc n" t] r lt' k w lt
    by (simp add: sleep_def upt_conv_Cons del: attempts.simps)
qed

text \<open>
  With a float \<open>delay\<close> and more than 1024 retries the loop reaches attempt 1024, where
  the multiplication raises \<open>OverflowError\<close>.
\<close>

lemma attempts_overflow:
  assumes srv: "always_500 srv" and mr: "1024 < nat mr" and fl: "is_float delay"
    and wake: "\<forall>i<1024. asyncio_sleep (scaled delay i) = Some (Inr ())"
  shows "d + k = 1024 \<Longrightarrow>
    attempts srv mr delay (Suc (d + n)) k t =
      (Some (Inl OverflowError),
       \<lparr>requests = requests t + Suc d, sleeps = sleeps t @ map (scaled delay) [k..<1024]\<rparr>)"
proof (induction d arbitrary: k t)
  case 0
  obtain h body where r: "srv k = Response 500 h body" using srv_500[OF srv] by blast
  from 0 have k: "k = 1024" by simp
  with mr have lt': "int k < mr" by simp
  show ?case using attempts_500_overflow[of srv k h body mr delay n t] r lt' k fl by simp
next
  case (Suc d)
  obtain h body where r: "srv k = Response 500 h body" using srv_500[OF srv] by blast
  from Suc.prems have lt: "k < 1024" by simp
  with mr have lt': "int k < mr" by simp
  from lt wake have w: "asyncio_sleep (scaled delay k) = Some (Inr ())" by simp
  from Suc.prems have "d + Suc k = 1024" by simp
  from Suc.IH[OF this] show ?case
    using attempts_500_retry[of srv k h body mr delay "Suc (d + n)" t] r lt' lt w
    by (simp add: sleep_def upt_conv_Cons del: attempts.simps)
qed

lemma safe_request_overflow:
  assumes "1024 < max_retries" and "always_500 srv" and "is_float delay"
    and "\<forall>i<1024. asyncio_sleep (scaled delay i) = Some (Inr ())"
  shows "safe_request srv max_retries delay =
           (Some (Inl OverflowError), \<lparr>requests = 1025, sleeps = map (scaled delay) [0..<1024]\<rparr>)"
proof -
  define n where "n = nat max_retries - 1024"
  from assms have n: "nat (max_retries + 1) = Suc (1024 + n)" unfolding n_def by simp
  from assms have mr: "1024 < nat max_retries" by simp
  show ?thesis unfolding safe_request_def n
    using attempts_overflow[OF assms(2) mr assms(3,4), of 1024 0 n "\<lparr>requests = 0, sleeps = []\<rparr>"]
    by simp
qed

text \<open>
  When the sleep before a retry returns: for a float \<open>delay\<close> unless the product reaches
  \<open>+inf\<close>, for an int \<open>delay\<close> unless the product rounds to beyond the doubles.
\<close>

lemma sleep_scaled_float:
  "asyncio_sleep (scaled (FloatNum r) k) = Some (Inr ()) \<longleftrightarrow> r * 2 ^ k < 2 ^ 1024"
  by (auto simp: overflowing_def)

lemma sleep_scaled_int:
  "asyncio_sleep (scaled (IntNum n) k) = Some (Inr ()) \<longleftrightarrow> n * 2 ^ k < 2 ^ 1024 - 2 ^ 970"
  by (auto simp: int_overflows_def)

lemma upt_2: "[0..<2] = [0, Suc 0]"
  by (simp add: numeral_2_eq_2)

lemma upt_3: "[0..<3] = [0, Suc 0, 2]"
  by (simp add: numeral_3_eq_3 numeral_2_eq_2)

lemma all_less_2: "(\<forall>k<2. P k) \<longleftrightarrow> P 0 \<and> P (Suc 0)"
  by (auto simp: numeral_2_eq_2 All_less_Suc)

lemma all_less_3: "(\<forall>k<3. P k) \<longleftrightarrow> P 0 \<and> P (Suc 0) \<and> P 2"
  by (auto simp: numeral_3_eq_3 numeral_2_eq_2 All_less_Suc)

lemma num_le_overflowing: "x \<le> y \<Longrightarrow> num_le (overflowing x) (overflowing y)"
  by (auto simp: overflowing_def)

lemma scaled_mono:
  assumes "num_le (IntNum 0) delay" and "i \<le> j"
  shows "num_le (scaled delay i) (scaled delay j)"
proof (cases delay)
  case (IntNum n)
  with assms(1) have "0 \<le> n" by simp
  moreover have "(2::int) ^ i \<le> 2 ^ j" using assms(2) by (simp add: power_increasing)
  ultimately have "n * 2 ^ i \<le> n * 2 ^ j" by (rule mult_left_mono[rotated])
  with IntNum show ?thesis by simp
next
  case (FloatNum r)
  with assms(1) have "0 \<le> r" by simp
  moreover have "(2::real) ^ i \<le> 2 ^ j" using assms(2) by (simp add: power_increasing)
  ultimately have "r * 2 ^ i \<le> r * 2 ^ j" by (rule mult_left_mono[rotated])
  with FloatNum show ?thesis by (simp add: num_le_overflowing)
qed (use assms in simp_all)

lemma sorted_scaled:
  "num_le (IntNum 0) delay \<Longrightarrow> sorted_wrt num_le (map (scaled delay) [k..<m])"
  by (auto simp: sorted_wrt_map sorted_wrt_iff_nth_less intro!: scaled_mono)

text \<open>
  Two calls that do not end in \<open>NetworkError\<close> although fewer than 1024 retries are
  allowed: with \<open>delay = 2.0 ** 1023\<close> the second product is \<open>+inf\<close> and the sleep before
  the second retry never returns; with the int \<open>delay = 2 ** 1024\<close> the first sleep raises
  \<open>OverflowError\<close>.
\<close>

lemma safe_request_sleep_outcomes:
  "safe_request server_500 2 (FloatNum (2 ^ 1023)) =
     (None, \<lparr>requests = 2, sleeps = [FloatNum (2 ^ 1023), PosInf]\<rparr>)"
  "safe_request server_500 1 (IntNum (2 ^ 1024)) =
     (Some (Inl OverflowError), \<lparr>requests = 1, sleeps = [IntNum (2 ^ 1024)]\<rparr>)"
  by (simp_all add: safe_request_def server_500_def backoff_def overflowing_def sleep_def
      int_overflows_def numeral_2_eq_2 numeral_3_eq_3)

text \<open>
  C4, as the claim states it, fails beyond 1024 retries: with \<open>max_retries = 1025\<close> and
  \<open>delay = 0.0\<close> a server that always answers 500 is asked 1025 times, not 1026, and the
  call ends in \<open>OverflowError\<close>, not in \<open>NetworkError\<close>.
\<close>

theorem safe_request_always_500_counterexample:
  "always_500 server_500
   \<and> fst (safe_request server_500 1025 (FloatNum 0)) = Some (Inl OverflowError)
   \<and> requests (snd (safe_request server_500 1025 (FloatNum 0))) = 1025
   \<and> fst (safe_request server_500 1025 (FloatNum 0)) \<noteq> Some (Inl NetworkError)
   \<and> requests (snd (safe_request server_500 1025 (FloatNum 0))) \<noteq> nat (1025 + 1)"
  by (simp add: safe_request_overflow[OF _ always_500_server_500] always_500_server_500
      overflowing_def)

text \<open>
  C4, amended: let every response have status 500 and \<open>max_retries \<ge> 0\<close>. Let \<open>delay\<close> be
  an int \<open>n\<close> with \<open>n * 2 ^ k\<close> below \<open>2 ^ 1024 - 2 ^ 970\<close> for every \<open>k < max_retries\<close>
  (beyond, \<open>asyncio.sleep\<close> raises \<open>OverflowError\<close>), or a finite float \<open>r\<close> with
  \<open>max_retries\<close> at most 1024 and \<open>r * 2 ^ k\<close> below \<open>2 ^ 1024\<close> for every
  \<open>k < max_retries\<close> (beyond, the product is \<open>+inf\<close> and the sleep never returns). Then
  the request is issued exactly \<open>max_retries + 1\<close> times, the sleep before retry \<open>k\<close>
  (after attempt \<open>k\<close>) is the value of \<open>delay * (2 ** k)\<close>, which is the exact product for
  an int and, for a float, the exact product or \<open>-inf\<close> when the product is not above
  \<open>- (2 ^ 1024)\<close>; the delays are non-decreasing for \<open>delay \<ge> 0\<close>, and the call raises
  \<open>NetworkError\<close>.
\<close>

theorem safe_request_always_500:
  assumes "0 \<le> max_retries" and "always_500 srv"
    and "(delay = IntNum n \<and> (\<forall>k<nat max_retries. n * 2 ^ k < 2 ^ 1024 - 2 ^ 970))
       \<or> (delay = FloatNum r \<and> max_retries \<le> 1024 \<and> (\<forall>k<nat max_retries. r * 2 ^ k < 2 ^ 1024))"
  shows "safe_request srv max_retries delay =
           (Some (Inl NetworkError),
            \<lparr>requests = nat max_retries + 1, sleeps = map (scaled delay) [0..<nat max_retries]\<rparr>)
       \<and> (delay = IntNum n \<longrightarrow>
             sleeps (snd (safe_request srv max_retries delay))
               = map (\<lambda>k. IntNum (n * 2 ^ k)) [0..<nat max_retries])
       \<and> (delay = FloatNum r \<longrightarrow>
             sleeps (snd (safe_request srv max_retries delay))
               = map (\<lambda>k. if - (2 ^ 1024) < r * 2 ^ k then FloatNum (r * 2 ^ k) else NegInf)
                   [0..<nat max_retries])
       \<and> (num_le (IntNum 0) delay \<longrightarrow>
             sorted_wrt num_le (sleeps (snd (safe_request srv max_retries delay))))"
proof -
  from assms(1) have n: "nat (max_retries + 1) = Suc (nat max_retries)" by simp
  from assms(3) have le: "\<not> is_float delay \<or> nat max_retries \<le> 1024" by auto
  from assms(3) have wake: "\<forall>k<nat max_retries. asyncio_sleep (scaled delay k) = Some (Inr ())"
    using sleep_scaled_int[of n] sleep_scaled_float[of r] by blast
  have eq: "safe_request srv max_retries delay =
           (Some (Inl NetworkError),
            \<lparr>requests = nat max_retries + 1, sleeps = map (scaled delay) [0..<nat max_retries]\<rparr>)"
    unfolding safe_request_def n
    using attempts_500[OF assms(2) le wake, of "nat max_retries" 0 "\<lparr>requests = 0, sleeps = []\<rparr>"]
    by simp
  have fl: "scaled (FloatNum r) k = (if - (2 ^ 1024) < r * 2 ^ k then FloatNum (r * 2 ^ k) else NegInf)"
    if "delay = FloatNum r" and "k < nat max_retries" for k
  proof -
    from that assms(3) have "r * 2 ^ k < 2 ^ 1024" by auto
    then show ?thesis by (auto simp: overflowing_def)
  qed
  show ?thesis unfolding eq using fl by (simp add: sorted_scaled)
qed

theorem safe_request_always_500_witness:
  "safe_request server_500 3 (FloatNum 1) =
     (Some (Inl NetworkError), \<lparr>requests = 4, sleeps = [FloatNum 1, FloatNum 2, FloatNum 4]\<rparr>)
   \<and> safe_request server_500 2 (IntNum 3) =
     (Some (Inl NetworkError), \<lparr>requests = 3, sleeps = [IntNum 3, IntNum 6]\<rparr>)
   \<and> safe_request server_500 2 (FloatNum (- (2 ^ 1023))) =
     (Some (Inl NetworkError), \<lparr>requests = 3, sleeps = [FloatNum (- (2 ^ 1023)), NegInf]\<rparr>)"
  using safe_request_always_500[of 3 server_500 "FloatNum 1" 0 1]
    safe_request_always_500[of 2 server_500 "IntNum 3" 3 0]
    safe_request_always_500[of 2 server_500 "FloatNum (- (2 ^ 1023))" 0 "- (2 ^ 1023)"]
    always_500_server_500
  by (simp add: upt_2 upt_3 all_less_2 all_less_3 overflowing_def)

text \<open>
  C7: when the first response has status 404, or any 4xx status other than 404 and 429,
  \<open>safe_request\<close> returns \<open>None\<close> after exactly one request, with no sleep, no retry and no
  exception.
\<close>

theorem safe_request_client_error:
  assumes "0 \<le> max_retries" and "srv 0 = Response status h body"
    and "status = 404 \<or> (400 \<le> status \<and> status < 500 \<and> status \<noteq> 429)"
  shows "safe_request srv max_retries delay = (Some (Inr None), \<lparr>requests = 1, sleeps = []\<rparr>)"
proof -
  from assms(1) have n: "nat (max_retries + 1) = Suc (nat max_retries)" by simp
  show ?thesis unfolding safe_request_def n using assms(2,3) by (auto simp: Let_def)
qed

theorem safe_request_client_error_witness:
  "safe_request server_404 3 (FloatNum 1) = (Some (Inr None), \<lparr>requests = 1, sleeps = []\<rparr>)"
  using safe_request_client_error[of 3 server_404 404 Absent "[]" "FloatNum 1"]
  by (simp add: server_404_def)

section \<open>Properties of sanitize\_filename and format\_audiobook\_filename\<close>

lemma collapse_fixed: "collapsed s \<Longrightarrow> collapse s = s"
proof (induction s rule: collapsed.induct)
  case 1 then show ?case by simp
next
  case (2 c) then show ?case by (simp add: is_run_def)
next
  case (3 c d s)
  then show ?case by (auto simp: is_run_def)
qed

lemma collapsed_Cons: "collapsed (c # s) \<longleftrightarrow> c \<noteq> 32 \<and> (s \<noteq> [] \<longrightarrow> \<not> (c = 95 \<and> hd s = 95)) \<and> collapsed s"
  by (cases s) auto

lemma dropWhile_run_hd: "dropWhile is_run s \<noteq> [] \<Longrightarrow> \<not> is_run (hd (dropWhile is_run s))"
  using hd_dropWhile by blast

lemma collapse_hd: "collapse s \<noteq> [] \<Longrightarrow> hd (collapse s) = (if is_run (hd s) then 95 else hd s)"
  by (cases s) auto

lemma collapse_Nil: "collapse s = [] \<longleftrightarrow> s = []"
  by (cases s) auto

lemma collapsed_collapse: "collapsed (collapse s)"
proof (induction s rule: collapse.induct)
  case 1 then show ?case by simp
next
  case (2 c cs)
  show ?case
  proof (cases "is_run c")
    case True
    let ?r = "dropWhile is_run cs"
    from True 2 have ih: "collapsed (collapse ?r)" by simp
    have "collapse ?r \<noteq> [] \<Longrightarrow> hd (collapse ?r) \<noteq> 95"
    proof -
      assume ne: "collapse ?r \<noteq> []"
      then have "?r \<noteq> []" by (simp add: collapse_Nil)
      then have "\<not> is_run (hd ?r)" by (rule dropWhile_run_hd)
      with ne show ?thesis by (auto simp: collapse_hd is_run_def)
    qed
    with ih True show ?thesis by (simp add: collapsed_Cons)
  next
    case False
    with 2 have ih: "collapsed (collapse cs)" by simp
    from False have "c \<noteq> 32" "c \<noteq> 95" by (auto simp: is_run_def)
    with ih False show ?thesis by (simp add: collapsed_Cons)
  qed
qed

lemma set_collapse: "set (collapse s) \<subseteq> insert 95 (set s)"
proof (induction s rule: collapse.induct)
  case 1 then show ?case by simp
next
  case (2 c cs)
  have "set (dropWhile is_run cs) \<subseteq> set cs" by (rule set_dropWhileD[THEN subsetI])
  with 2 show ?case by (auto split: if_splits)
qed

lemma collapse_keeps: "c \<in> set s \<Longrightarrow> \<not> is_run c \<Longrightarrow> c \<in> set (collapse s)"
proof (induction s rule: collapse.induct)
  case 1 then show ?case by simp
next
  case (2 d cs)
  show ?case
  proof (cases "is_run d")
    case True
    with 2 have "c \<in> set cs" by auto
    with 2(4) have "c \<in> set (dropWhile is_run cs)"
      by (metis (full_types) set_append takeWhile_dropWhile_id Un_iff set_takeWhileD)
    with 2 True show ?thesis by simp
  next
    case False
    with 2 show ?thesis by auto
  qed
qed

lemma collapse_append_tail:
  "\<not> is_run c \<Longrightarrow> collapse (xs @ c # ys) = collapse xs @ c # collapse ys"
proof (induction xs rule: collapse.induct)
  case 1 then show ?case by simp
next
  case (2 d cs)
  show ?case
  proof (cases "is_run d")
    case True
    have "dropWhile is_run (cs @ c # ys) = dropWhile is_run cs @ c # ys"
      using 2(3) by (induction cs) auto
    with 2 True show ?thesis by simp
  next
    case False
    with 2 show ?thesis by simp
  qed
qed

lemma collapsed_append_left: "collapsed (xs @ ys) \<Longrightarrow> collapsed xs"
proof (induction xs rule: collapsed.induct)
  case 1 then show ?case by simp
next
  case (2 c) then show ?case by (cases ys) auto
next
  case (3 c d s) then show ?case by auto
qed

lemma collapsed_append_right: "collapsed (xs @ ys) \<Longrightarrow> collapsed ys"
proof (induction xs)
  case Nil then show ?case by simp
next
  case (Cons a xs) then show ?case by (simp add: collapsed_Cons)
qed

lemma collapsed_append:
  "collapsed xs \<Longrightarrow> collapsed (c # ys) \<Longrightarrow> c \<noteq> 95 \<Longrightarrow> collapsed (xs @ c # ys)"
proof (induction xs rule: collapsed.induct)
  case 1 then show ?case by simp
next
  case (2 d) then show ?case by (simp add: collapsed_Cons)
next
  case (3 d e s) then show ?case by simp
qed


lemma dropWhile_fixed: "s \<noteq> [] \<Longrightarrow> \<not> P (hd s) \<Longrightarrow> dropWhile P s = s"
  by (cases s) auto

lemma strip_chars_fixed:
  "s \<noteq> [] \<Longrightarrow> hd s \<notin> set cs \<Longrightarrow> last s \<notin> set cs \<Longrightarrow> strip_chars cs s = s"
  by (simp add: strip_chars_def dropWhile_fixed hd_rev)

lemma sanitize_fixed:
  assumes "nf s = s"
    and "\<forall>c\<in>set s. c \<notin> set invalid_chars \<and> \<not> is_control c"
    and "collapsed s" and "s \<noteq> []"
    and "hd s \<notin> set [32, 46]" and "last s \<notin> set [32, 46]"
    and "int (length s) \<le> m"
  shows "sanitize_filename nf s m = s"
proof -
  have 2: "map (\<lambda>c. if c \<in> set invalid_chars then 95 else c) s = s"
    using assms(2) by (intro map_idI) auto
  have 3: "filter (\<lambda>c. \<not> is_control c) s = s"
    using assms(2) by (intro filter_True) auto
  have 4: "collapse s = s" using assms(3) by (rule collapse_fixed)
  have 5: "strip_chars [32, 46] s = s" using assms(4,5,6) by (rule strip_chars_fixed)
  show ?thesis using assms(1,4,7) by (simp add: sanitize_filename_def 2 3 4 5)
qed

lemma rsplit_dot_ext:
  "46 \<notin> set ext \<Longrightarrow> rsplit_dot (name @ 46 # ext) = Some (name, ext)"
proof -
  assume a: "46 \<notin> set ext"
  have r: "rev (name @ 46 # ext) = rev ext @ 46 # rev name" by simp
  have t: "takeWhile (\<lambda>c. c \<noteq> 46) (rev ext @ 46 # rev name) = rev ext"
    using a by (subst takeWhile_append2) auto
  have d: "dropWhile (\<lambda>c. c \<noteq> 46) (rev ext @ 46 # rev name) = 46 # rev name"
    using a by (subst dropWhile_append2) auto
  show ?thesis unfolding rsplit_dot_def r t d by simp
qed


lemma py_lits:
  "py ''mp3'' = [109, 112, 51]" "py ''.'' = [46]" "py '' - '' = [32, 45, 32]"
  by (simp_all add: py_def)

lemma formatted_name_shape:
  "\<exists>pre. formatted_name t a (py ''mp3'') = pre @ [46, 109, 112, 51] \<and> 45 \<in> set pre"
  by (simp add: formatted_name_def Let_def py_lits)

lemma format_shape:
  assumes raw: "nf (formatted_name t a (py ''mp3'')) = pre @ [46, 109, 112, 51]"
    and dash: "45 \<in> set pre"
  shows "\<exists>D. format_audiobook_filename nf t a (py ''mp3'') = D @ [46, 109, 112, 51]
            \<and> D \<noteq> [] \<and> hd D \<notin> set [32, 46] \<and> collapsed D
            \<and> (\<forall>c\<in>set D. c \<notin> set invalid_chars \<and> \<not> is_control c) \<and> length D \<le> 251
            \<and> sublist D (collapse (filter (\<lambda>c. \<not> is_control c)
                 (map (\<lambda>c. if c \<in> set invalid_chars then 95 else c) pre)))"
proof -
  define g where "g = (\<lambda>c::nat. if c \<in> set invalid_chars then 95 else c)"
  define A where "A = filter (\<lambda>c. \<not> is_control c) (map g pre)"
  define B where "B = collapse A"
  define C where "C = dropWhile (\<lambda>c. c \<in> set [32, 46]) B"
  have f3: "filter (\<lambda>c. \<not> is_control c) (map g (pre @ [46, 109, 112, 51])) = A @ [46, 109, 112, 51]"
    by (simp add: A_def g_def invalid_chars_def is_control_def)
  have f4: "collapse (A @ [46, 109, 112, 51]) = B @ [46, 109, 112, 51]"
    by (simp add: B_def collapse_append_tail is_run_def)
  have A_clean: "\<forall>c\<in>set A. c \<notin> set invalid_chars \<and> \<not> is_control c"
    by (auto simp: A_def g_def invalid_chars_def)
  have "45 \<in> set A" using dash by (auto simp: A_def g_def invalid_chars_def is_control_def)
  then have dashB: "45 \<in> set B" unfolding B_def by (rule collapse_keeps) (simp add: is_run_def)
  have us: "95 \<notin> set invalid_chars \<and> \<not> is_control 95"
    by (simp add: invalid_chars_def is_control_def)
  have B_clean: "\<forall>c\<in>set B. c \<notin> set invalid_chars \<and> \<not> is_control c"
    using A_clean set_collapse[of A] us unfolding B_def by blast
  have colB: "collapsed B" by (simp add: B_def collapsed_collapse)
  have "\<exists>x\<in>set B. \<not> x \<in> set [32, 46]" using dashB by (intro bexI[of _ 45]) simp_all
  then have C_ne: "C \<noteq> []" unfolding C_def dropWhile_eq_Nil_conv by blast
  then have hdC: "hd C \<notin> set [32, 46]" unfolding C_def using hd_dropWhile by blast
  have BC: "B = takeWhile (\<lambda>c. c \<in> set [32, 46]) B @ C" by (simp add: C_def)
  then have colC: "collapsed C" using colB collapsed_append_right by metis
  have C_sub: "set C \<subseteq> set B" unfolding C_def by (auto dest: set_dropWhileD)
  have dw: "dropWhile (\<lambda>c. c \<in> set [32, 46]) (B @ [46, 109, 112, 51]) = C @ [46, 109, 112, 51]"
    using C_ne unfolding C_def by (simp add: dropWhile_append dropWhile_eq_Nil_conv)
  have f5: "strip_chars [32, 46] (B @ [46, 109, 112, 51]) = C @ [46, 109, 112, 51]"
    unfolding strip_chars_def dw by simp
  have f6: "C @ [46, 109, 112, 51] \<noteq> []" by simp
  have rs: "rsplit_dot (C @ [46, 109, 112, 51]) = Some (C, [109, 112, 51])"
    using rsplit_dot_ext[of "[109, 112, 51]" C] by simp
  define D where "D = (if 251 < length C then take 251 C else C)"
  have res: "format_audiobook_filename nf t a (py ''mp3'') = D @ [46, 109, 112, 51]"
    unfolding format_audiobook_filename_def sanitize_filename_def raw g_def[symmetric] f3 f4 f5 Let_def
    using f6 rs by (simp add: D_def slice_to_def)
  have D_ne: "D \<noteq> []" using C_ne by (auto simp: D_def)
  have hdD: "hd D = hd C" using C_ne by (auto simp: D_def hd_take)
  have CD: "C = D @ drop 251 C" by (simp add: D_def)
  then have colD: "collapsed D" using colC collapsed_append_left by metis
  have D_sub: "set D \<subseteq> set C" by (auto simp: D_def dest: in_set_takeD)
  have lenD: "length D \<le> 251" by (simp add: D_def)
  have D_clean: "\<forall>c\<in>set D. c \<notin> set invalid_chars \<and> \<not> is_control c"
    using D_sub C_sub B_clean by blast
  from hdD hdC have hdD': "hd D \<notin> set [32, 46]" by simp
  have "B = takeWhile (\<lambda>c. c \<in> set [32, 46]) B @ D @ drop 251 C" using BC CD by simp
  then have "sublist D B" unfolding sublist_def by blast
  then have sub: "sublist D (collapse (filter (\<lambda>c. \<not> is_control c) (map g pre)))"
    by (simp only: B_def A_def)
  from res D_ne hdD' colD D_clean lenD sub[unfolded g_def] show ?thesis by blast
qed

text \<open>
  A name of the shape that \<open>format_audiobook_filename\<close> gives, which the normalization
  leaves as it is, is left as it is by \<open>sanitize_filename\<close>.
\<close>

lemma sanitize_shape_fixed:
  assumes y: "y = D @ [46, 109, 112, 51]"
    and D: "D \<noteq> []" "hd D \<notin> set [32, 46]" "collapsed D"
      "\<forall>c\<in>set D. c \<notin> set invalid_chars \<and> \<not> is_control c" "length D \<le> 251"
    and H2: "nf y = y"
  shows "sanitize_filename nf y 255 = y"
proof -
  have col: "collapsed (D @ [46, 109, 112, 51])"
    using D(3) by (intro collapsed_append) simp_all
  have tl: "\<forall>c\<in>set [46, 109, 112, 51]. c \<notin> set invalid_chars \<and> \<not> is_control c"
    by (simp add: invalid_chars_def is_control_def)
  have cl: "\<forall>c\<in>set (D @ [46, 109, 112, 51]). c \<notin> set invalid_chars \<and> \<not> is_control c"
    using D(4) tl unfolding set_append by blast
  have ne: "D @ [46, 109, 112, 51] \<noteq> []" by simp
  have hd: "hd (D @ [46, 109, 112, 51]) \<notin> set [32, 46]" using D(1,2) by simp
  have la: "last (D @ [46, 109, 112, 51]) \<notin> set [32, 46]" by simp
  have le: "int (length (D @ [46, 109, 112, 51])) \<le> 255" using D(5) by simp
  show ?thesis unfolding y
    using H2[unfolded y] cl col ne hd la le by (rule sanitize_fixed)
qed

text \<open>
  The normalization and a tail of code points that have no decomposition and combining
  class 0: the canonical ordering never moves a mark across such a code point.
\<close>

lemma reorder_insert_append:
  "ccc t = 0 \<Longrightarrow> reorder_insert ccc c (zs @ t # ts) = reorder_insert ccc c zs @ t # ts"
  by (induction zs) auto

lemma foldr_reorder_append:
  "ccc t = 0 \<Longrightarrow>
   foldr (reorder_insert ccc) xs (t # ts) = foldr (reorder_insert ccc) xs [] @ t # ts"
  by (induction xs) (simp_all add: reorder_insert_append)

lemma set_reorder_insert: "set (reorder_insert ccc c xs) = insert c (set xs)"
  by (induction xs) auto

lemma set_reorder: "set (foldr (reorder_insert ccc) xs []) = set xs"
  by (induction xs) (simp_all add: set_reorder_insert)

lemma reorder_starters:
  "\<forall>c\<in>set s. ccc c = 0 \<Longrightarrow> foldr (reorder_insert ccc) s [] = s"
proof (induction s)
  case Nil then show ?case by simp
next
  case (Cons a s)
  then show ?case by (cases s) simp_all
qed

lemma concat_undecomposed:
  "\<forall>c\<in>set s. decomposition u c = [c] \<Longrightarrow> concat (map (decomposition u) s) = s"
  by (induction s) simp_all

lemma nfkd_fixed:
  assumes "\<forall>c\<in>set s. decomposition u c = [c] \<and> combining u c = 0"
  shows "nfkd u s = s"
  using assms by (simp add: nfkd_def reorder_starters concat_undecomposed)

lemma nfkd_tail:
  assumes "\<forall>c\<in>set (t # ts). decomposition u c = [c] \<and> combining u c = 0"
  shows "nfkd u (pre @ t # ts) = nfkd u pre @ t # ts"
proof -
  let ?ins = "reorder_insert (combining u)" and ?X = "concat (map (decomposition u) pre)"
  have c: "concat (map (decomposition u) (t # ts)) = t # ts"
    using assms by (intro concat_undecomposed) blast
  have r: "foldr ?ins (t # ts) [] = t # ts" using assms by (intro reorder_starters) blast
  have "nfkd u (pre @ t # ts) = foldr ?ins (?X @ concat (map (decomposition u) (t # ts))) []"
    by (simp add: nfkd_def)
  also have "\<dots> = foldr ?ins ?X (foldr ?ins (t # ts) [])" unfolding c by (simp only: foldr_append)
  also have "\<dots> = foldr ?ins ?X [] @ t # ts"
    unfolding r using assms by (intro foldr_reorder_append) simp
  finally show ?thesis by (simp add: nfkd_def)
qed

lemma nfkd_keeps: "c \<in> set s \<Longrightarrow> decomposition u c = [c] \<Longrightarrow> c \<in> set (nfkd u s)"
  by (force simp: nfkd_def set_reorder)

text \<open>
  With the ASCII rows of the character database (no decomposition, combining class 0) the
  result of \<open>format_audiobook_filename\<close> ends in \<open>.mp3\<close> after a name that is not empty,
  whatever the title and the author.
\<close>

lemma format_shape_nfkd:
  assumes u: "\<forall>c<128. decomposition u c = [c] \<and> combining u c = 0"
  shows "\<exists>D. format_audiobook_filename (nfkd u) t a (py ''mp3'') = D @ [46, 109, 112, 51]
            \<and> D \<noteq> [] \<and> hd D \<notin> set [32, 46] \<and> collapsed D
            \<and> (\<forall>c\<in>set D. c \<notin> set invalid_chars \<and> \<not> is_control c) \<and> length D \<le> 251"
proof -
  obtain pre where raw: "formatted_name t a (py ''mp3'') = pre @ [46, 109, 112, 51]"
    and dash: "45 \<in> set pre"
    using formatted_name_shape by blast
  have "\<forall>c\<in>set [46, 109, 112, 51]. decomposition u c = [c] \<and> combining u c = 0"
    using u by simp
  then have 1: "nfkd u (formatted_name t a (py ''mp3'')) = nfkd u pre @ [46, 109, 112, 51]"
    unfolding raw by (rule nfkd_tail)
  have 2: "45 \<in> set (nfkd u pre)" using dash u by (intro nfkd_keeps) simp_all
  from format_shape[of "nfkd u" t a "nfkd u pre", OF 1 2] show ?thesis by blast
qed

lemma format_audiobook_filename_fixed:
  assumes u: "\<forall>c<128. decomposition u c = [c] \<and> combining u c = 0"
    and H2: "nfkd u (format_audiobook_filename (nfkd u) t a (py ''mp3''))
              = format_audiobook_filename (nfkd u) t a (py ''mp3'')"
  shows "sanitize_filename (nfkd u) (format_audiobook_filename (nfkd u) t a (py ''mp3'')) 255
          = format_audiobook_filename (nfkd u) t a (py ''mp3'')"
proof -
  from format_shape_nfkd[OF u, of t a] obtain D where
    y: "format_audiobook_filename (nfkd u) t a (py ''mp3'') = D @ [46, 109, 112, 51]"
    and D: "D \<noteq> []" "hd D \<notin> set [32, 46]" "collapsed D"
      "\<forall>c\<in>set D. c \<notin> set invalid_chars \<and> \<not> is_control c" "length D \<le> 251"
    by blast
  from y D H2 show ?thesis by (rule sanitize_shape_fixed)
qed

text \<open>
  The canonical ordering: its results are in canonical order, and it leaves a string in
  canonical order as it is. The steps of \<open>sanitize_filename\<close> other than the removal of
  control characters keep a string in canonical order.
\<close>

lemma ordered_Cons:
  "ordered ccc (a # s) \<longleftrightarrow> (s \<noteq> [] \<longrightarrow> \<not> (0 < ccc (hd s) \<and> ccc (hd s) < ccc a)) \<and> ordered ccc s"
  by (cases s) auto

lemma reorder_insert_ordered: "ordered ccc (c # s) \<Longrightarrow> reorder_insert ccc c s = c # s"
  by (cases s) auto

lemma reorder_ordered: "ordered ccc s \<Longrightarrow> foldr (reorder_insert ccc) s [] = s"
  by (induction s) (auto simp: ordered_Cons reorder_insert_ordered)

lemma hd_reorder_insert:
  "hd (reorder_insert ccc c s) = (if s \<noteq> [] \<and> 0 < ccc (hd s) \<and> ccc (hd s) < ccc c then hd s else c)"
  by (cases s) auto

lemma reorder_insert_Nil: "reorder_insert ccc c s \<noteq> []"
  by (cases s) auto

lemma ordered_reorder_insert: "ordered ccc s \<Longrightarrow> ordered ccc (reorder_insert ccc c s)"
proof (induction s)
  case Nil then show ?case by simp
next
  case (Cons d ds)
  then have ih: "ordered ccc (reorder_insert ccc c ds)" by (simp add: ordered_Cons)
  show ?case
  proof (cases "0 < ccc d \<and> ccc d < ccc c")
    case True
    with Cons.prems ih show ?thesis
      by (auto simp: ordered_Cons[of ccc d] hd_reorder_insert reorder_insert_Nil)
  next
    case False
    with Cons.prems show ?thesis by (auto simp: ordered_Cons)
  qed
qed

lemma ordered_reorder: "ordered ccc (foldr (reorder_insert ccc) xs [])"
  by (induction xs) (simp_all add: ordered_reorder_insert)

lemma ordered_append_left: "ordered ccc (xs @ ys) \<Longrightarrow> ordered ccc xs"
  by (induction ccc xs rule: ordered.induct) (auto simp: ordered_Cons)

lemma ordered_append_right: "ordered ccc (xs @ ys) \<Longrightarrow> ordered ccc ys"
  by (induction xs) (auto simp: ordered_Cons)

lemma ordered_sublist: "sublist xs ys \<Longrightarrow> ordered ccc ys \<Longrightarrow> ordered ccc xs"
  unfolding sublist_def using ordered_append_left ordered_append_right by blast

lemma ordered_append_starter:
  "ordered ccc xs \<Longrightarrow> ccc t = 0 \<Longrightarrow> ordered ccc (t # ts) \<Longrightarrow> ordered ccc (xs @ t # ts)"
  by (induction ccc xs rule: ordered.induct) (auto simp: ordered_Cons)

lemma ordered_map:
  "\<forall>c. ccc (g c) = ccc c \<Longrightarrow> ordered ccc s \<Longrightarrow> ordered ccc (map g s)"
  by (induction ccc s rule: ordered.induct) auto

lemma ordered_collapse:
  assumes "ccc 95 = 0"
  shows "ordered ccc s \<Longrightarrow> ordered ccc (collapse s)"
proof (induction s rule: collapse.induct)
  case 1 then show ?case by simp
next
  case (2 c cs)
  show ?case
  proof (cases "is_run c")
    case True
    have "ordered ccc (dropWhile is_run cs)"
      using 2(3) ordered_append_right[of ccc "c # takeWhile is_run cs" "dropWhile is_run cs"] by simp
    with 2 True have "ordered ccc (collapse (dropWhile is_run cs))" by simp
    with True assms show ?thesis by (simp add: ordered_Cons)
  next
    case False
    from 2(3) have o: "ordered ccc cs" by (simp add: ordered_Cons)
    with 2 False have ih: "ordered ccc (collapse cs)" by simp
    have "collapse cs \<noteq> [] \<Longrightarrow> \<not> (0 < ccc (hd (collapse cs)) \<and> ccc (hd (collapse cs)) < ccc c)"
    proof -
      assume ne: "collapse cs \<noteq> []"
      then have cs: "cs \<noteq> []" by (simp add: collapse_Nil)
      with 2(3) have "\<not> (0 < ccc (hd cs) \<and> ccc (hd cs) < ccc c)" by (simp add: ordered_Cons)
      with ne assms show ?thesis by (auto simp: collapse_hd)
    qed
    with ih False show ?thesis by (simp add: ordered_Cons)
  qed
qed

lemma nfkd_ordered_fixed:
  assumes "\<forall>c\<in>set s. decomposition u c = [c]" and "ordered (combining u) s"
  shows "nfkd u s = s"
  using assms by (simp add: nfkd_def concat_undecomposed reorder_ordered)

lemma nfkd_ordered: "ordered (combining u) (nfkd u s)"
  by (simp add: nfkd_def ordered_reorder)

lemma set_nfkd: "set (nfkd u s) = (\<Union>c\<in>set s. set (decomposition u c))"
  by (simp add: nfkd_def set_reorder)

text \<open>
  Over a character database with the ASCII rows and full decompositions, when the
  normalized formatted name has no control character, the result of
  \<open>format_audiobook_filename\<close> is in normal form.
\<close>

lemma format_normal:
  assumes u: "\<forall>c<128. decomposition u c = [c] \<and> combining u c = 0"
    and full: "\<forall>c. \<forall>d\<in>set (decomposition u c). decomposition u d = [d]"
    and nc: "\<forall>c\<in>set (nfkd u (formatted_name t a (py ''mp3''))). \<not> is_control c"
  shows "nfkd u (format_audiobook_filename (nfkd u) t a (py ''mp3''))
           = format_audiobook_filename (nfkd u) t a (py ''mp3'')"
proof -
  let ?ccc = "combining u"
  define g where "g = (\<lambda>c::nat. if c \<in> set invalid_chars then 95 else c)"
  obtain pre where raw: "formatted_name t a (py ''mp3'') = pre @ [46, 109, 112, 51]"
    and dash: "45 \<in> set pre"
    using formatted_name_shape by blast
  define P where "P = nfkd u pre"
  have "\<forall>c\<in>set [46, 109, 112, 51]. decomposition u c = [c] \<and> combining u c = 0"
    using u by simp
  then have N: "nfkd u (formatted_name t a (py ''mp3'')) = P @ [46, 109, 112, 51]"
    unfolding raw P_def by (rule nfkd_tail)
  have dashP: "45 \<in> set P" unfolding P_def using dash u by (intro nfkd_keeps) simp_all
  from format_shape[of "nfkd u" t a P, OF N dashP] obtain D where
    y: "format_audiobook_filename (nfkd u) t a (py ''mp3'') = D @ [46, 109, 112, 51]"
    and sub: "sublist D (collapse (filter (\<lambda>c. \<not> is_control c) (map g P)))"
    unfolding g_def by blast
  have ncP: "\<forall>c\<in>set P. \<not> is_control c" using nc unfolding N by simp
  have "\<forall>c\<in>set (map g P). \<not> is_control c"
    using ncP by (auto simp: g_def is_control_def)
  then have A: "filter (\<lambda>c. \<not> is_control c) (map g P) = map g P" by (intro filter_True) blast
  have inv: "\<forall>c\<in>set invalid_chars. c < 128" by (simp add: invalid_chars_def)
  have gc: "\<forall>c. ?ccc (g c) = ?ccc c" using u inv by (auto simp: g_def)
  have "ordered ?ccc (P @ [46, 109, 112, 51])" unfolding N[symmetric] by (rule nfkd_ordered)
  then have "ordered ?ccc P" by (rule ordered_append_left)
  with gc have "ordered ?ccc (map g P)" by (rule ordered_map)
  moreover have "?ccc 95 = 0" using u by simp
  ultimately have "ordered ?ccc (collapse (map g P))" by (intro ordered_collapse)
  with sub have oD: "ordered ?ccc D" unfolding A by (rule ordered_sublist)
  have t0: "?ccc 46 = 0" and t1: "ordered ?ccc [46, 109, 112, 51]" using u by simp_all
  have oy: "ordered ?ccc (D @ [46, 109, 112, 51])"
    using oD t0 t1 by (rule ordered_append_starter)
  have dP: "\<forall>c\<in>set P. decomposition u c = [c]"
    using full unfolding P_def set_nfkd by blast
  have dg: "\<forall>c\<in>set (map g P). decomposition u c = [c]"
    using dP u by (auto simp: g_def)
  have "set (collapse (map g P)) \<subseteq> insert 95 (set (map g P))" by (rule set_collapse)
  with dg u have dB: "\<forall>c\<in>set (collapse (map g P)). decomposition u c = [c]" by auto
  from sub have "set D \<subseteq> set (collapse (map g P))" unfolding A by (rule set_mono_sublist)
  with dB have dD: "\<forall>c\<in>set D. decomposition u c = [c]" by blast
  have dy: "\<forall>c\<in>set (D @ [46, 109, 112, 51]). decomposition u c = [c]"
    using dD u by auto
  show ?thesis unfolding y using dy oy by (rule nfkd_ordered_fixed)
qed


lemmas fdefs = format_audiobook_filename_def formatted_name_def sanitize_filename_def py_def strip_def
  strip_chars_def nfkd_def ucd_excerpt_def invalid_chars_def is_control_def is_run_def
  is_whitespace_def rsplit_dot_def slice_to_def

lemma set_slice_to: "set (slice_to k s) \<subseteq> set s"
  by (simp add: slice_to_def set_take_subset)

lemma set_dropWhile_subset: "set (dropWhile P xs) \<subseteq> set xs"
  by (meson set_dropWhileD subsetI)

lemma set_takeWhile_subset: "set (takeWhile P xs) \<subseteq> set xs"
  by (meson set_takeWhileD subsetI)

lemma set_rsplit_dot:
  assumes "rsplit_dot s = Some (n, e)"
  shows "set n \<subseteq> set s \<and> set e \<subseteq> set s"
proof (cases "46 \<in> set s")
  case True
  with assms have n: "n = rev (drop 1 (dropWhile (\<lambda>c. c \<noteq> 46) (rev s)))"
    and e: "e = rev (takeWhile (\<lambda>c. c \<noteq> 46) (rev s))"
    by (simp_all add: rsplit_dot_def)
  have "set n = set (drop 1 (dropWhile (\<lambda>c. c \<noteq> 46) (rev s)))" unfolding n by (rule set_rev)
  also have "\<dots> \<subseteq> set (dropWhile (\<lambda>c. c \<noteq> 46) (rev s))"
    by (rule set_drop_subset)
  also have "\<dots> \<subseteq> set (rev s)" by (rule set_dropWhile_subset)
  finally have 1: "set n \<subseteq> set s" by simp
  have "set e = set (takeWhile (\<lambda>c. c \<noteq> 46) (rev s))" unfolding e by (rule set_rev)
  also have "\<dots> \<subseteq> set (rev s)" by (rule set_takeWhile_subset)
  finally have 2: "set e \<subseteq> set s" by simp
  from 1 2 show ?thesis by simp
next
  case False
  with assms show ?thesis by (simp add: rsplit_dot_def)
qed

lemma set_strip_chars: "set (strip_chars cs s) \<subseteq> set s"
proof -
  let ?P = "\<lambda>c. c \<in> set cs"
  have "set (strip_chars cs s) = set (dropWhile ?P (rev (dropWhile ?P s)))"
    by (simp only: strip_chars_def set_rev)
  also have "\<dots> \<subseteq> set (rev (dropWhile ?P s))" by (rule set_dropWhile_subset)
  also have "\<dots> = set (dropWhile ?P s)" by (rule set_rev)
  also have "\<dots> \<subseteq> set s" by (rule set_dropWhile_subset)
  finally show ?thesis .
qed

lemma collapsed_no_space: "collapsed s \<Longrightarrow> 32 \<notin> set s"
  by (induction s rule: collapsed.induct) auto

text \<open>A property of the characters that holds after the collapsing step, and of the dot and
  of the letters of the placeholder, holds of every character of the sanitized name.\<close>

lemma sanitize_chars:
  assumes 4: "\<forall>c\<in>set (collapse (filter (\<lambda>c. \<not> is_control c)
                  (map (\<lambda>c. if c \<in> set invalid_chars then 95 else c) (nf s)))). K c"
    and dot: "K 46" and un: "\<forall>c\<in>set (py ''untitled''). K c"
  shows "\<forall>c\<in>set (sanitize_filename nf s m). K c"
proof -
  define f4 where "f4 = collapse (filter (\<lambda>c. \<not> is_control c)
                  (map (\<lambda>c. if c \<in> set invalid_chars then 95 else c) (nf s)))"
  define f5 where "f5 = strip_chars [32, 46] f4"
  define f6 where "f6 = (if f5 = [] then py ''untitled'' else f5)"
  have 5: "\<forall>c\<in>set f5. K c"
    using 4 set_strip_chars[of "[32, 46]" f4] unfolding f5_def f4_def by blast
  have 6: "\<forall>c\<in>set f6. K c" using 5 un by (simp add: f6_def)
  have sl: "\<forall>c\<in>set (slice_to k f6). K c" for k using 6 set_slice_to[of k f6] by blast
  have r: "sanitize_filename nf s m =
     (if m < int (length f6)
      then (case rsplit_dot f6 of
              Some (name, ext) \<Rightarrow>
                if length ext \<le> 10
                then slice_to (m - int (length ext) - 1) name @ [46] @ ext
                else slice_to m f6
            | None \<Rightarrow> slice_to m f6)
      else f6)"
    by (simp only: sanitize_filename_def Let_def f6_def f5_def f4_def)
  show ?thesis
  proof (cases "rsplit_dot f6")
    case None
    then show ?thesis unfolding r using 6 sl by simp
  next
    case (Some p)
    obtain name ext where p: "p = (name, ext)" by (cases p)
    from set_rsplit_dot[of f6 name ext] Some p 6
    have n: "\<forall>c\<in>set name. K c" and e: "\<forall>c\<in>set ext. K c" by blast+
    have "\<forall>c\<in>set (slice_to k name). K c" for k using n set_slice_to[of k name] by blast
    then have "\<forall>c\<in>set (slice_to k name @ [46] @ ext). K c" for k using e dot by auto
    then show ?thesis unfolding r using Some p 6 sl by simp
  qed
qed

lemma sanitize_no_invalid: "\<forall>c\<in>set (sanitize_filename nf s m). c \<notin> set invalid_chars"
proof -
  define g where "g = (\<lambda>c::nat. if c \<in> set invalid_chars then 95 else c)"
  have us: "95 \<notin> set invalid_chars" and dot: "46 \<notin> set invalid_chars"
    and un: "\<forall>c\<in>set (py ''untitled''). c \<notin> set invalid_chars"
    by (simp_all add: invalid_chars_def py_def)
  have "\<forall>c\<in>set (filter (\<lambda>c. \<not> is_control c) (map g (nf s))). c \<notin> set invalid_chars"
    using us by (auto simp: g_def)
  then have 4: "\<forall>c\<in>set (collapse (filter (\<lambda>c. \<not> is_control c) (map g (nf s)))). c \<notin> set invalid_chars"
    using us set_collapse[of "filter (\<lambda>c. \<not> is_control c) (map g (nf s))"] by blast
  show ?thesis
    using sanitize_chars[of nf s "\<lambda>c. c \<notin> set invalid_chars" m, OF 4[unfolded g_def] dot un] .
qed

text \<open>No sanitized name contains a space: the collapsing step turns every space into an
  underscore.\<close>

lemma sanitize_no_space: "32 \<notin> set (sanitize_filename nf s m)"
proof -
  let ?f3 = "filter (\<lambda>c. \<not> is_control c) (map (\<lambda>c. if c \<in> set invalid_chars then 95 else c) (nf s))"
  have "32 \<notin> set (collapse ?f3)" using collapsed_collapse by (rule collapsed_no_space)
  then have 4: "\<forall>c\<in>set (collapse ?f3). c \<noteq> 32" by blast
  have un: "\<forall>c\<in>set (py ''untitled''). c \<noteq> 32" by (simp add: py_def)
  have "\<forall>c\<in>set (sanitize_filename nf s m). c \<noteq> 32"
    using sanitize_chars[of nf s "\<lambda>c. c \<noteq> 32" m, OF 4 _ un] by simp
  then show ?thesis by blast
qed

lemma set_strip: "set (strip s) \<subseteq> set s"
proof -
  have "set (strip s) = set (dropWhile is_whitespace (rev (dropWhile is_whitespace s)))"
    by (simp only: strip_def set_rev)
  also have "\<dots> \<subseteq> set (rev (dropWhile is_whitespace s))" by (rule set_dropWhile_subset)
  also have "\<dots> = set (dropWhile is_whitespace s)" by (rule set_rev)
  also have "\<dots> \<subseteq> set s" by (rule set_dropWhile_subset)
  finally show ?thesis .
qed

lemma formatted_name_chars:
  assumes "\<forall>c\<in>set ti. K c" and "\<forall>c\<in>set au. K c"
    and "\<forall>c\<in>set (py ''Unknown Title'' @ py ''Unknown Author'' @ py '' - .mp3''). K c"
  shows "\<forall>c\<in>set (formatted_name ti au (py ''mp3'')). K c"
proof -
  have t: "\<forall>c\<in>set (strip ti). K c" using assms(1) set_strip[of ti] by blast
  have a: "\<forall>c\<in>set (strip au). K c" using assms(2) set_strip[of au] by blast
  have l: "\<forall>c\<in>set (py ''Unknown Title''). K c" "\<forall>c\<in>set (py ''Unknown Author''). K c"
    "\<forall>c\<in>set (py '' - ''). K c" "\<forall>c\<in>set (py ''.''). K c" "\<forall>c\<in>set (py ''mp3''). K c"
    using assms(3) by (simp_all add: py_def)
  show ?thesis unfolding formatted_name_def Let_def set_append using t a l by (simp split: if_splits) blast
qed

lemma formatted_name_ascii:
  assumes "\<forall>c\<in>set ti. c < 128" and "\<forall>c\<in>set au. c < 128"
  shows "\<forall>c\<in>set (formatted_name ti au (py ''mp3'')). c < 128"
  using assms by (rule formatted_name_chars) (simp add: py_def)

text \<open>
  For a title and an author without control characters, over a character database in which
  no decomposition of another code point holds a control character, the normalized
  formatted name has no control character.
\<close>

lemma formatted_name_no_control:
  assumes dc: "\<forall>c. \<not> is_control c \<longrightarrow> (\<forall>d\<in>set (decomposition u c). \<not> is_control d)"
    and "\<forall>c\<in>set ti \<union> set au. \<not> is_control c"
  shows "\<forall>c\<in>set (nfkd u (formatted_name ti au (py ''mp3''))). \<not> is_control c"
proof -
  have "\<forall>c\<in>set (formatted_name ti au (py ''mp3'')). \<not> is_control c"
    using assms(2) by (intro formatted_name_chars) (simp_all add: py_def is_control_def)
  with dc show ?thesis unfolding set_nfkd by blast
qed

text \<open>For ASCII titles and authors the normalization of the result is the identity,
  whatever the character database says beyond ASCII.\<close>

lemma format_audiobook_filename_ascii:
  assumes u: "\<forall>c<128. decomposition u c = [c] \<and> combining u c = 0"
    and "\<forall>c\<in>set ti. c < 128" and "\<forall>c\<in>set au. c < 128"
  shows "sanitize_filename (nfkd u) (format_audiobook_filename (nfkd u) ti au (py ''mp3'')) 255
          = format_audiobook_filename (nfkd u) ti au (py ''mp3'')"
proof -
  let ?raw = "formatted_name ti au (py ''mp3'')"
  let ?g = "\<lambda>c::nat. if c \<in> set invalid_chars then 95 else c"
  have raw: "\<forall>c\<in>set ?raw. c < 128" using assms(2,3) by (rule formatted_name_ascii)
  then have H1: "nfkd u ?raw = ?raw" using u by (intro nfkd_fixed) blast
  have "\<forall>c\<in>set (filter (\<lambda>c. \<not> is_control c) (map ?g (nfkd u ?raw))). c < 128"
    unfolding H1 using raw by auto
  then have 4: "\<forall>c\<in>set (collapse (filter (\<lambda>c. \<not> is_control c) (map ?g (nfkd u ?raw)))). c < 128"
    using set_collapse[of "filter (\<lambda>c. \<not> is_control c) (map ?g (nfkd u ?raw))"] by auto
  have un: "\<forall>c\<in>set (py ''untitled''). c < 128" by (simp add: py_def)
  have "\<forall>c\<in>set (sanitize_filename (nfkd u) ?raw 255). c < 128"
    using sanitize_chars[of "nfkd u" ?raw "\<lambda>c. c < 128" 255, OF 4 _ un] by simp
  then have "\<forall>c\<in>set (format_audiobook_filename (nfkd u) ti au (py ''mp3'')). c < 128"
    by (simp only: format_audiobook_filename_def)
  then have H2: "nfkd u (format_audiobook_filename (nfkd u) ti au (py ''mp3''))
      = format_audiobook_filename (nfkd u) ti au (py ''mp3'')"
    using u by (intro nfkd_fixed) blast
  from u H2 show ?thesis by (rule format_audiobook_filename_fixed)
qed

lemma ucd_excerpt_ascii:
  "\<forall>c<128. decomposition ucd_excerpt c = [c] \<and> combining ucd_excerpt c = 0"
  by (simp add: ucd_excerpt_def)

lemma ucd_excerpt_full:
  "\<forall>c. \<forall>d\<in>set (decomposition ucd_excerpt c). decomposition ucd_excerpt d = [d]"
  by (simp add: ucd_excerpt_def)

lemma ucd_excerpt_control:
  "\<forall>c. \<not> is_control c \<longrightarrow> (\<forall>d\<in>set (decomposition ucd_excerpt c). \<not> is_control d)"
  by (simp add: ucd_excerpt_def is_control_def)

text \<open>
  C6, as the claim states it, fails: the title \<open>a\<close>, U+0301, U+0001, U+0323 with the author
  \<open>A\<close> is in normal form, the control character between the two combining marks is
  removed, and the second normalization then swaps the marks, which the first one had left
  in place: sanitizing the result once more changes it.
\<close>

theorem sanitize_twice_counterexample:
  "sanitize_filename (nfkd ucd_excerpt)
      (format_audiobook_filename (nfkd ucd_excerpt) [97, 769, 1, 803] (py ''A'') (py ''mp3'')) 255
   \<noteq> format_audiobook_filename (nfkd ucd_excerpt) [97, 769, 1, 803] (py ''A'') (py ''mp3'')"
  by (simp add: fdefs Let_def)

text \<open>
  C6, amended: for every title and author, the result of \<open>format_audiobook_filename\<close>
  contains none of the characters \<open>< > : " | ? * \ /\<close>, whatever the normalization does.
  With NFKD over a character database that has the ASCII rows of the Unicode one (no
  decomposition, combining class 0), \<open>sanitize_filename\<close> returns the result unchanged
  whenever NFKD leaves the result unchanged. This is so for every title and author without
  control characters (U+0000 to U+001F, U+007F to U+009F), when moreover the decompositions
  of the database are full and only a control character decomposes into control
  characters, as in the Unicode database. The witness is the title U+00E9, which NFKD
  decomposes.
\<close>

theorem format_audiobook_filename_stable:
  "(\<forall>c\<in>set invalid_chars. c \<notin> set (format_audiobook_filename nf ti au (py ''mp3'')))
   \<and> ((\<forall>c<128. decomposition u c = [c] \<and> combining u c = 0) \<longrightarrow>
      nfkd u (format_audiobook_filename (nfkd u) ti au (py ''mp3''))
        = format_audiobook_filename (nfkd u) ti au (py ''mp3'') \<longrightarrow>
      sanitize_filename (nfkd u) (format_audiobook_filename (nfkd u) ti au (py ''mp3'')) 255
        = format_audiobook_filename (nfkd u) ti au (py ''mp3''))
   \<and> ((\<forall>c<128. decomposition u c = [c] \<and> combining u c = 0) \<longrightarrow>
      (\<forall>c. \<forall>d\<in>set (decomposition u c). decomposition u d = [d]) \<longrightarrow>
      (\<forall>c. \<not> is_control c \<longrightarrow> (\<forall>d\<in>set (decomposition u c). \<not> is_control d)) \<longrightarrow>
      (\<forall>c\<in>set ti \<union> set au. \<not> is_control c) \<longrightarrow>
      sanitize_filename (nfkd u) (format_audiobook_filename (nfkd u) ti au (py ''mp3'')) 255
        = format_audiobook_filename (nfkd u) ti au (py ''mp3''))"
proof (intro conjI impI ballI)
  fix c assume "c \<in> set invalid_chars"
  then show "c \<notin> set (format_audiobook_filename nf ti au (py ''mp3''))"
    using sanitize_no_invalid[of nf "formatted_name ti au (py ''mp3'')" 255]
    unfolding format_audiobook_filename_def by blast
next
  assume "\<forall>c<128. decomposition u c = [c] \<and> combining u c = 0"
    and "nfkd u (format_audiobook_filename (nfkd u) ti au (py ''mp3''))
        = format_audiobook_filename (nfkd u) ti au (py ''mp3'')"
  then show "sanitize_filename (nfkd u) (format_audiobook_filename (nfkd u) ti au (py ''mp3'')) 255
        = format_audiobook_filename (nfkd u) ti au (py ''mp3'')"
    by (rule format_audiobook_filename_fixed)
next
  assume u: "\<forall>c<128. decomposition u c = [c] \<and> combining u c = 0"
    and full: "\<forall>c. \<forall>d\<in>set (decomposition u c). decomposition u d = [d]"
    and dc: "\<forall>c. \<not> is_control c \<longrightarrow> (\<forall>d\<in>set (decomposition u c). \<not> is_control d)"
    and nc: "\<forall>c\<in>set ti \<union> set au. \<not> is_control c"
  from dc nc have "\<forall>c\<in>set (nfkd u (formatted_name ti au (py ''mp3''))). \<not> is_control c"
    by (rule formatted_name_no_control)
  with u full have "nfkd u (format_audiobook_filename (nfkd u) ti au (py ''mp3''))
        = format_audiobook_filename (nfkd u) ti au (py ''mp3'')"
    by (rule format_normal)
  with u show "sanitize_filename (nfkd u) (format_audiobook_filename (nfkd u) ti au (py ''mp3'')) 255
        = format_audiobook_filename (nfkd u) ti au (py ''mp3'')"
    by (rule format_audiobook_filename_fixed)
qed

theorem format_audiobook_filename_stable_witness:
  "format_audiobook_filename (nfkd ucd_excerpt) [233] (py ''Jane Doe'') (py ''mp3'')
     = py ''Jane_Doe_-_e'' @ [769] @ py ''.mp3''
   \<and> nfkd ucd_excerpt (formatted_name [233] (py ''Jane Doe'') (py ''mp3''))
       \<noteq> formatted_name [233] (py ''Jane Doe'') (py ''mp3'')
   \<and> sanitize_filename (nfkd ucd_excerpt)
       (format_audiobook_filename (nfkd ucd_excerpt) [233] (py ''Jane Doe'') (py ''mp3'')) 255
     = format_audiobook_filename (nfkd ucd_excerpt) [233] (py ''Jane Doe'') (py ''mp3'')
   \<and> 47 \<notin> set (format_audiobook_filename (nfkd ucd_excerpt) [233] (py ''Jane Doe'') (py ''mp3''))"
proof -
  have nc: "\<forall>c\<in>set [233] \<union> set (py ''Jane Doe''). \<not> is_control c"
    by (simp add: py_def is_control_def)
  have "sanitize_filename (nfkd ucd_excerpt)
       (format_audiobook_filename (nfkd ucd_excerpt) [233] (py ''Jane Doe'') (py ''mp3'')) 255
     = format_audiobook_filename (nfkd ucd_excerpt) [233] (py ''Jane Doe'') (py ''mp3'')"
    using format_audiobook_filename_stable[of "nfkd ucd_excerpt" "[233]" "py ''Jane Doe''" ucd_excerpt]
      ucd_excerpt_ascii ucd_excerpt_full ucd_excerpt_control nc
    by blast
  moreover have "47 \<notin> set (format_audiobook_filename (nfkd ucd_excerpt) [233] (py ''Jane Doe'') (py ''mp3''))"
    using format_audiobook_filename_stable[of "nfkd ucd_excerpt" "[233]" "py ''Jane Doe''" ucd_excerpt]
    by (simp add: invalid_chars_def)
  moreover have "format_audiobook_filename (nfkd ucd_excerpt) [233] (py ''Jane Doe'') (py ''mp3'')
     = py ''Jane_Doe_-_e'' @ [769] @ py ''.mp3''"
    by (simp add: fdefs Let_def)
  moreover have "nfkd ucd_excerpt (formatted_name [233] (py ''Jane Doe'') (py ''mp3''))
       \<noteq> formatted_name [233] (py ''Jane Doe'') (py ''mp3'')"
    by (simp add: fdefs Let_def)
  ultimately show ?thesis by blast
qed
section \<open>Properties of the playlist extractor\<close>

lemma find_append:
  "find P (xs @ ys) = (case find P xs of Some x \<Rightarrow> Some x | None \<Rightarrow> find P ys)"
  by (induction xs) auto

lemma m3u8_nonempty: "endswith s m3u8 \<Longrightarrow> s \<noteq> []"
  by (auto simp: endswith_def m3u8_def py_def)

lemma find_m3u8_nonempty: "find (\<lambda>s. endswith s m3u8) xs = Some r \<Longrightarrow> r \<noteq> []"
  by (auto simp: find_Some_iff dest: m3u8_nonempty)

text \<open>On a value without URL strings as list elements, the nested search returns the first
  string of the depth-first traversal that ends in \<open>.m3u8\<close>.\<close>

lemma find_m3u8_recursive_all_strings:
  "no_url_elements d \<Longrightarrow>
     find_m3u8_recursive d = (case d of JStr s \<Rightarrow> None | _ \<Rightarrow> find (\<lambda>s. endswith s m3u8) (all_strings d))"
  "no_url_elements_items kvs \<Longrightarrow>
     find_in_items kvs = find (\<lambda>s. endswith s m3u8) (all_strings_items kvs)"
  "no_url_elements_list xs \<Longrightarrow>
     find_in_list xs = find (\<lambda>s. endswith s m3u8) (all_strings_list xs)"
proof (induction d and kvs and xs rule: find_m3u8_recursive_find_in_items_find_in_list.induct)
  case (8 kv rest)
  show ?case
  proof (cases "snd kv")
    case (JStr s)
    with 8 show ?thesis by simp
  next
    case (JObj kvs')
    with 8 show ?thesis
      by (auto simp: find_append split: option.splits dest: find_m3u8_nonempty)
  next
    case (JArr xs')
    with 8 show ?thesis
      by (auto simp: find_append split: option.splits dest: find_m3u8_nonempty)
  qed (use 8 in simp_all)
next
  case (10 item rest)
  show ?case
  proof (cases item)
    case (JStr s)
    with 10 show ?thesis by simp
  qed (use 10 in \<open>auto simp: find_append split: option.splits dest: find_m3u8_nonempty\<close>)
qed simp_all

lemma key_in_map_of: "k \<in> fst ` set kvs \<longleftrightarrow> map_of kvs k \<noteq> None"
  by (simp add: map_of_eq_None_iff)

lemma url_of_testable:
  "url_testable v \<Longrightarrow> url_of v = Inr (find (\<lambda>s. endswith s m3u8) (url_string v))"
proof (cases v)
  case (JObj kvs)
  assume t: "url_testable v"
  show ?thesis
  proof (cases "map_of kvs (py ''url'')")
    case None
    then show ?thesis using JObj by (simp add: url_of_def key_in_map_of)
  next
    case (Some u)
    then have i: "py_in (py ''url'') v = Inr True" using JObj by (simp add: key_in_map_of)
    show ?thesis
    proof (cases u)
      case (JStr s)
      then show ?thesis using Some JObj i by (auto simp: url_of_def dest: m3u8_nonempty)
    qed (use t Some JObj i in \<open>simp_all add: url_of_def\<close>)
  qed
qed simp_all

lemma validation_loop_testable:
  "list_all url_testable rs \<Longrightarrow>
   validation_loop rs = Inr (find (\<lambda>s. endswith s m3u8) (concat (map url_string rs)))"
  by (induction rs) (auto simp: url_of_testable find_append split: option.splits)

lemma validation_results_well_shaped:
  assumes "well_shaped d"
  shows "validation_results d =
     Inr (find (\<lambda>s. endswith s m3u8) (concat (map url_string (validation_entries d))))"
proof (cases d)
  case (JObj kvs)
  show ?thesis
  proof (cases "map_of kvs (py ''validationResults'')")
    case None
    then show ?thesis using JObj by (simp add: validation_results_def key_in_map_of)
  next
    case (Some v)
    then have i: "py_in (py ''validationResults'') d = Inr True" using JObj by (simp add: key_in_map_of)
    show ?thesis
    proof (cases v)
      case (JArr rs)
      with assms Some JObj have "list_all url_testable rs" by simp
      then show ?thesis using JArr Some JObj i
        by (simp add: validation_results_def validation_loop_testable)
    qed (use assms Some JObj in simp_all)
  qed
qed (use assms in simp_all)

lemma search_response_spec:
  assumes "well_shaped d" and "no_url_elements d"
  shows "search_response d = Inr (spec_playlist d)"
proof -
  from assms(1) obtain kvs where d: "d = JObj kvs" by (cases d) simp_all
  from assms(1) d have t: "url_testable d" by simp
  have r: "find_m3u8_recursive d = find (\<lambda>s. endswith s m3u8) (all_strings d)"
    using find_m3u8_recursive_all_strings(1)[OF assms(2)] d by simp
  show ?thesis
    unfolding search_response_def spec_playlist_def
      url_of_testable[OF t] validation_results_well_shaped[OF assms(1)] r
    by (simp add: find_append split: option.splits)
qed

lemmas jdefs = get_playlist_from_api_def api_try_block_def catch_all_def search_response_def
  url_of_def validation_results_def spec_playlist_def nested_response_def numeric_url_response_def
  url_list_response_def endswith_def m3u8_def py_def

text \<open>
  C3, as the claim states it, fails on two kinds of response. A \<open>url\<close> value that is a
  non-zero number has no \<open>endswith\<close>: the \<open>AttributeError\<close> is caught by the last handler
  and the call returns \<open>None\<close>, although a string ending in \<open>.m3u8\<close> is in the response.
  And a string that is an element of a list is never looked at by the nested search.
\<close>

theorem get_playlist_from_api_counterexample:
  "get_playlist_from_api (ApiJson numeric_url_response) = Inr None
   \<and> spec_playlist numeric_url_response = Some (py ''https://y/z.m3u8'')
   \<and> get_playlist_from_api (ApiJson url_list_response) = Inr None
   \<and> spec_playlist url_list_response = Some (py ''https://y/z.m3u8'')"
  by (simp add: jdefs)

text \<open>
  C3, amended: for every response that is a JSON object whose \<open>url\<close> value, if present, is
  a string or counts as false, whose \<open>validationResults\<close> value, if present, is a list of
  objects with such \<open>url\<close> values, and in which no list has a string ending in \<open>.m3u8\<close>
  as an element, \<open>get_playlist_from_api\<close> returns the first URL by the priority order:
  the top-level \<open>url\<close> ending in \<open>.m3u8\<close>, then the \<open>url\<close> of each entry of
  \<open>validationResults\<close> in list order, then the first string ending in \<open>.m3u8\<close> of a
  depth-first traversal of the whole response; \<open>None\<close> if there is none. The witness is
  the response of the scenario, for which it returns \<open>https://y/z.m3u8\<close>.
\<close>

theorem get_playlist_from_api_priority:
  assumes "well_shaped data" and "no_url_elements data"
  shows "get_playlist_from_api (ApiJson data) = Inr (spec_playlist data)"
  using search_response_spec[OF assms]
  by (simp add: get_playlist_from_api_def api_try_block_def catch_all_def)


theorem get_playlist_from_api_priority_witness:
  "get_playlist_from_api (ApiJson nested_response) = Inr (Some (py ''https://y/z.m3u8''))"
  using get_playlist_from_api_priority[of nested_response]
  by (simp add: jdefs)
























section \<open>Properties of the audiobook scraper\<close>




lemma extract_title_nonempty: "extract_title es = Some t \<Longrightarrow> t \<noteq> []"
  by (induction es rule: extract_title.induct) (auto simp: Let_def split: if_splits)

lemmas sdefs = extract_metadata_def extract_author_def clean_title_def clean_author_def
  title_suffixes_def author_prefixes_def falsy_def strip_def is_whitespace_def slice_to_def
  startswith_def happy_book_page_def anonymous_book_page_def no_details_def
  extract_playlist_url_def extract_media_id_def happy_page_def api_happy_def happy_response_def
  strip_chars_def





text \<open>
  C5: on the page of the happy path the extraction gives the record with the title
  \<open>Title X\<close>, the author \<open>Jane Doe\<close> and the playlist URL of the API, as the claim
  says; the file name generated for it is \<open>Jane_Doe_-_Title_X.mp3\<close> and not
  \<open>Jane Doe - Title X.mp3\<close>: \<open>sanitize_filename\<close> turns every space into an underscore
  (see also \<open>sanitize_no_space\<close>).
\<close>

theorem happy_path_filename:
  "extract_metadata ascii_lower ascii_isdigit api_happy happy_book_page (py ''https://site/book'')
     = Inr (Some happy_metadata)
   \<and> generate_filename (nfkd ucd_excerpt) (AudiobookMetadata.title happy_metadata)
        (AudiobookMetadata.author happy_metadata) = py ''Jane_Doe_-_Title_X.mp3''
   \<and> generate_filename (nfkd ucd_excerpt) (AudiobookMetadata.title happy_metadata)
        (AudiobookMetadata.author happy_metadata) \<noteq> py ''Jane Doe - Title X.mp3''"
  by (simp add: sdefs jdefs fdefs happy_metadata_def generate_filename_def Let_def)

section \<open>Properties of the category scraper\<close>

lemma run_methods_found:
  "run_methods ms acc = acc @ concat (map found ms)"
proof (induction ms arbitrary: acc)
  case Nil then show ?case by simp
next
  case (Cons m ms)
  then show ?case by (cases m) simp_all
qed

lemma unique_loop_firsts: "unique_loop bs seen acc = acc @ firsts seen bs"
  by (induction bs arbitrary: seen acc) simp_all

lemma urls_firsts:
  "AudiobookInfo.url ` set (firsts seen bs) = AudiobookInfo.url ` set bs - seen"
  by (induction bs arbitrary: seen) auto

lemma distinct_firsts: "distinct (map AudiobookInfo.url (firsts seen bs))"
proof (induction bs arbitrary: seen)
  case Nil then show ?case by simp
next
  case (Cons b bs)
  have "AudiobookInfo.url b \<notin> AudiobookInfo.url ` set (firsts (insert (AudiobookInfo.url b) seen) bs)"
    unfolding urls_firsts by simp
  with Cons show ?case by simp
qed

lemma subseq_firsts: "subseq (firsts seen bs) bs"
  by (induction bs arbitrary: seen) auto

lemma firsts_first:
  "b \<in> set (firsts seen bs) \<Longrightarrow> find (\<lambda>x. AudiobookInfo.url x = AudiobookInfo.url b) bs = Some b"
proof (induction bs arbitrary: seen)
  case Nil then show ?case by simp
next
  case (Cons c bs)
  show ?case
  proof (cases "AudiobookInfo.url c \<in> seen")
    case True
    with Cons.prems have b: "b \<in> set (firsts seen bs)" by simp
    then have "AudiobookInfo.url b \<in> AudiobookInfo.url ` set (firsts seen bs)" by blast
    then have "AudiobookInfo.url b \<notin> seen" unfolding urls_firsts by simp
    with True have "AudiobookInfo.url c \<noteq> AudiobookInfo.url b" by auto
    with Cons.IH[OF b] show ?thesis by simp
  next
    case False
    show ?thesis
    proof (cases "b = c")
      case True then show ?thesis by simp
    next
      case ne: False
      with False Cons.prems have b: "b \<in> set (firsts (insert (AudiobookInfo.url c) seen) bs)" by simp
      then have "AudiobookInfo.url b \<in> AudiobookInfo.url ` set (firsts (insert (AudiobookInfo.url c) seen) bs)"
        by blast
      then have "AudiobookInfo.url c \<noteq> AudiobookInfo.url b" unfolding urls_firsts by auto
      with Cons.IH[OF b] show ?thesis by simp
    qed
  qed
qed

text \<open>
  The distinct elements of a list in the order of their first occurrences. \<open>remdups\<close>
  keeps the last occurrence of each element, so that on the reversed list it keeps the
  first ones.
\<close>

lemma remdups_snoc: "remdups (ys @ [x]) = filter (\<lambda>y. y \<noteq> x) (remdups ys) @ [x]"
  by (induction ys) auto

lemma first_seen_Cons:
  "rev (remdups (rev (x # xs))) = x # filter (\<lambda>y. y \<noteq> x) (rev (remdups (rev xs)))"
  by (simp add: remdups_snoc rev_filter)

lemma urls_firsts_order:
  "map AudiobookInfo.url (firsts seen bs)
     = filter (\<lambda>u. u \<notin> seen) (rev (remdups (rev (map AudiobookInfo.url bs))))"
proof (induction bs arbitrary: seen)
  case Nil then show ?case by simp
next
  case (Cons b bs)
  let ?u = "AudiobookInfo.url b" and ?us = "rev (remdups (rev (map AudiobookInfo.url bs)))"
  have c: "rev (remdups (rev (map AudiobookInfo.url (b # bs)))) = ?u # filter (\<lambda>y. y \<noteq> ?u) ?us"
    using first_seen_Cons[of ?u "map AudiobookInfo.url bs"] by simp
  show ?case
  proof (cases "?u \<in> seen")
    case True
    then have "filter (\<lambda>v. v \<notin> seen) (filter (\<lambda>y. y \<noteq> ?u) ?us) = filter (\<lambda>v. v \<notin> seen) ?us"
      by (auto intro: filter_cong)
    with True Cons.IH[of seen] show ?thesis unfolding c by simp
  next
    case False
    have "filter (\<lambda>v. v \<notin> seen) (filter (\<lambda>y. y \<noteq> ?u) ?us)
            = filter (\<lambda>v. v \<notin> insert ?u seen) ?us"
      by (auto intro: filter_cong)
    with False Cons.IH[of "insert ?u seen"] show ?thesis unfolding c by simp
  qed
qed

lemma parse_category_page_firsts:
  "parse_category_page g b s l = firsts {} (found g @ found b @ found s @ found l)"
  by (simp add: parse_category_page_def run_methods_found unique_loop_firsts)

text \<open>
  C2: whatever the four strategies return or raise, the list that \<open>_parse_category_page\<close>
  returns has no URL twice and has exactly the URLs of the entries found; its URLs are the
  distinct URLs of the concatenation of the strategies' results (grid items, book items,
  ``Livre audio'' sections, generic links) in the order in which they are first seen
  there; the list is a subsequence of this concatenation, and the entry it keeps for a URL
  is the first one with that URL in the concatenation, hence the one of the earliest
  strategy. The last two properties fix the returned list: it is the list of the first
  entries of the URLs in first-seen order.
\<close>

theorem parse_category_page_unique:
  "distinct (map AudiobookInfo.url (parse_category_page g b s l))
   \<and> set (map AudiobookInfo.url (parse_category_page g b s l))
       = set (map AudiobookInfo.url (found g @ found b @ found s @ found l))
   \<and> map AudiobookInfo.url (parse_category_page g b s l)
       = rev (remdups (rev (map AudiobookInfo.url (found g @ found b @ found s @ found l))))
   \<and> subseq (parse_category_page g b s l) (found g @ found b @ found s @ found l)
   \<and> (\<forall>book \<in> set (parse_category_page g b s l).
         find (\<lambda>x. AudiobookInfo.url x = AudiobookInfo.url book)
           (found g @ found b @ found s @ found l) = Some book)
   \<and> parse_category_page g b s l
       = map (\<lambda>u. the (find (\<lambda>x. AudiobookInfo.url x = u) (found g @ found b @ found s @ found l)))
           (rev (remdups (rev (map AudiobookInfo.url (found g @ found b @ found s @ found l)))))"
proof -
  let ?all = "found g @ found b @ found s @ found l"
  let ?res = "firsts {} ?all"
  have ord: "map AudiobookInfo.url ?res = rev (remdups (rev (map AudiobookInfo.url ?all)))"
    using urls_firsts_order[of "{}" ?all] by simp
  have fst: "\<forall>book \<in> set ?res. find (\<lambda>x. AudiobookInfo.url x = AudiobookInfo.url book) ?all = Some book"
    using firsts_first[of _ "{}" ?all] by blast
  have "?res = map (\<lambda>book. the (find (\<lambda>x. AudiobookInfo.url x = AudiobookInfo.url book) ?all)) ?res"
    using fst by (simp add: map_idI)
  also have "\<dots> = map (\<lambda>u. the (find (\<lambda>x. AudiobookInfo.url x = u) ?all)) (map AudiobookInfo.url ?res)"
    by (simp add: comp_def)
  finally have det: "?res = map (\<lambda>u. the (find (\<lambda>x. AudiobookInfo.url x = u) ?all))
      (rev (remdups (rev (map AudiobookInfo.url ?all))))"
    unfolding ord .
  show ?thesis
    unfolding parse_category_page_firsts
    using distinct_firsts[of "{}" ?all] urls_firsts[of "{}" ?all] subseq_firsts[of "{}" ?all] fst ord det
    by (simp del: set_append map_append)
qed

theorem parse_category_page_unique_witness:
  "parse_category_page (Yields [grid_book]) (Raises OtherException) (Yields [])
      (Yields [other_book, link_book, other_book]) = [grid_book, other_book]
   \<and> rev (remdups (rev (map AudiobookInfo.url [grid_book, other_book, link_book, other_book])))
       = [py ''https://site/livres-audio/1'', py ''https://site/livres-audio/2'']"
proof -
  have "parse_category_page (Yields [grid_book]) (Raises OtherException) (Yields [])
      (Yields [other_book, link_book, other_book])
     = map (\<lambda>u. the (find (\<lambda>x. AudiobookInfo.url x = u) [grid_book, other_book, link_book, other_book]))
         (rev (remdups (rev (map AudiobookInfo.url [grid_book, other_book, link_book, other_book]))))"
    using parse_category_page_unique[of "Yields [grid_book]" "Raises OtherException" "Yields []"
      "Yields [other_book, link_book, other_book]"]
    by simp
  then show ?thesis
    by (simp add: grid_book_def other_book_def link_book_def py_def)
qed
section \<open>Properties of the orchestrator\<close>

lemmas bumps = bump_processed_def bump_failed_def bump_skipped_def bump_downloaded_def

text \<open>
  C8: when the metadata is extracted with a playlist URL, \<open>skip_existing\<close> is set and a
  file exists at the target path (the output directory and the generated file name), the
  call returns \<open>True\<close> without a call of the external downloader, adds one to \<open>skipped\<close>
  and leaves \<open>downloaded\<close> and \<open>failed\<close> as they were.
\<close>

theorem process_single_skips_existing:
  assumes "scraped w = Inr (Some metadata)"
    and "\<not> falsy (AudiobookMetadata.playlist_url metadata)"
    and "skip_existing cfg"
    and "file_exists w (output_directory cfg)
           (generate_filename nf (AudiobookMetadata.title metadata) (AudiobookMetadata.author metadata))
         = Yields True"
  shows "fst (process_single_audiobook cfg nf w st) = True
    \<and> downloader_calls (snd (process_single_audiobook cfg nf w st)) = downloader_calls st
    \<and> skipped (stats (snd (process_single_audiobook cfg nf w st))) = skipped (stats st) + 1
    \<and> downloaded (stats (snd (process_single_audiobook cfg nf w st))) = downloaded (stats st)
    \<and> failed (stats (snd (process_single_audiobook cfg nf w st))) = failed (stats st)"
  using assms by (simp add: process_single_audiobook_def Let_def bumps)

lemmas mdefs = process_single_audiobook_def download_and_tag_def bumps existing_item_def
  untagged_item_def unreachable_item_def happy_metadata_def default_config_def initial_state_def
  falsy_def

theorem process_single_skips_existing_witness:
  "process_single_audiobook default_config (nfkd ucd_excerpt) existing_item initial_state =
     (True, \<lparr>stats = \<lparr>discovered = 0, processed = 1, downloaded = 0, failed = 0, skipped = 1\<rparr>,
             downloader_calls = [], tagger_calls = []\<rparr>)"
  using process_single_skips_existing[of existing_item happy_metadata default_config "nfkd ucd_excerpt" initial_state]
  by (simp add: mdefs Let_def py_def)








end
